theory Spec2Isabelle
  imports Main
begin

section \<open>The water heater relay controller of auto\_switch.py\<close>

text \<open>
  The daemon is a single object, \<open>WaterHeaterController\<close>, whose three methods are
  registered as GLib timeout callbacks.  A callback that returns \<open>True\<close> stays armed, one
  that returns \<open>False\<close> is removed from the main loop.  The D-Bus is outside the program:
  what it answers during one callback is an input of the model (a \<open>bus\<close> record), and
  what the callback does to the outside (calls of the two registry helpers, log records,
  timers it registers) is returned as a list of events, in program order.
\<close>

subsection \<open>Constants and the outside world\<close>

datatype service = SETTINGS_SERVICE_NAME | SYSTEM_SERVICE

text \<open>
  The three kinds of object path the program builds: \<open>AC_ACTIVE_INPUT_SOURCE_PATH\<close>,
  \<open>RELAY_PATH_BASE + n + STATE_PATH_SUFFIX\<close> and
  \<open>SETTINGS_RELAY_BASE_PATH + "/" + n + CUSTOM_NAME_PATH_SUFFIX\<close>.
\<close>

datatype path = AC_ACTIVE_INPUT_SOURCE_PATH | RelayState nat | RelayCustomName nat

definition TARGET_CUSTOM_NAMES :: "string list" where
  "TARGET_CUSTOM_NAMES = [''AC Water Heater'', ''AC WH'']"

definition MAX_RELAY_NUMBER_TO_CHECK :: nat where
  "MAX_RELAY_NUMBER_TO_CHECK = 10"

text \<open>
  A read through \<open>_get_dbus_value\<close> ends in one of three ways: \<open>bus.get_object\<close>
  raises, \<open>GetValue\<close> raises on the object obtained, or a value comes back.  A write
  through \<open>_set_relay_state\<close> likewise.  The value of a relay's custom name is a
  string and the value of the active AC input source is an integer.
\<close>

datatype 'a read_outcome = NoObject | GetValueFailed | Got 'a

datatype write_outcome = WNoObject | SetValueFailed | SetValueOk

record bus =
  custom_name_read :: "nat \<Rightarrow> string read_outcome"
  ac_source_read :: "int read_outcome"
  relay_state_write :: write_outcome

datatype callback = FindWaterHeaterRelay | InitializeMonitoring | MonitorAcInputSource

datatype level = INFO | WARNING | ERROR

datatype message =
    ErrorGettingValue service path
  | SetTo service path int
  | ErrorSettingValue service path
  | AttemptingToFind "string list"
  | FoundRelay nat
  | NotFoundYet
  | InitNowAvailable
  | InitialSource string
  | InitNotAvailable
  | MonitorNowAvailable
  | SourceChanged string int
  | MonitorCouldNotRead

text \<open>
  \<open>Read\<close> marks a call of \<open>_get_dbus_value\<close> and \<open>Write\<close> a call of
  \<open>_set_relay_state\<close> with a relay number that is not \<open>None\<close>: the program
  asks for the value to be read or written, whatever the bus then answers.
  \<open>TimeoutAdd\<close> is \<open>GLib.timeout_add_seconds\<close>.
\<close>

datatype event =
    Read service path
  | Write service path int
  | Log level message
  | TimeoutAdd nat callback

subsection \<open>The controller\<close>

record controller =
  water_heater_relay_number :: "nat option"
  previous_ac_source :: "int option"
  initial_state_set :: bool
  relay_found :: bool
  ac_source_unavailable_warning_logged :: bool

definition init_controller :: controller where
  "init_controller =
     \<lparr>water_heater_relay_number = None, previous_ac_source = None,
      initial_state_set = False, relay_found = False,
      ac_source_unavailable_warning_logged = False\<rparr>"

text \<open>\<open>__init__\<close> also registers the locator, every 5 seconds.\<close>

definition init_events :: "event list" where
  "init_events = [TimeoutAdd 5 FindWaterHeaterRelay]"

subsection \<open>Registry helpers\<close>

definition get_dbus_value :: "service \<Rightarrow> path \<Rightarrow> 'a read_outcome \<Rightarrow> 'a option \<times> event list" where
  "get_dbus_value service_name p r =
     (case r of
        NoObject \<Rightarrow> (None, [Read service_name p])
      | GetValueFailed \<Rightarrow> (None, [Read service_name p, Log ERROR (ErrorGettingValue service_name p)])
      | Got v \<Rightarrow> (Some v, [Read service_name p]))"

definition set_relay_state :: "nat option \<Rightarrow> int \<Rightarrow> write_outcome \<Rightarrow> bool \<times> event list" where
  "set_relay_state relay_number v w =
     (case relay_number of
        None \<Rightarrow> (False, [])
      | Some n \<Rightarrow>
          (case w of
             WNoObject \<Rightarrow> (False, [Write SYSTEM_SERVICE (RelayState n) v])
           | SetValueFailed \<Rightarrow>
               (False, [Write SYSTEM_SERVICE (RelayState n) v,
                        Log ERROR (ErrorSettingValue SYSTEM_SERVICE (RelayState n))])
           | SetValueOk \<Rightarrow>
               (True, [Write SYSTEM_SERVICE (RelayState n) v,
                       Log INFO (SetTo SYSTEM_SERVICE (RelayState n) v)])))"

subsection \<open>The classifier\<close>

text \<open>Python's \<open>str\<close> of an integer, used by the f-string of the last branch.\<close>

definition digit_char :: "nat \<Rightarrow> char" where
  "digit_char d = ''0123456789'' ! d"

fun str_nat :: "nat \<Rightarrow> string" where
  "str_nat n = (if n < 10 then [digit_char n] else str_nat (n div 10) @ [digit_char (n mod 10)])"

declare str_nat.simps [simp del]

definition str_int :: "int \<Rightarrow> string" where
  "str_int i = (if i < 0 then CHR ''-'' # str_nat (nat (- i)) else str_nat (nat i))"

definition interpret_ac_source :: "int \<Rightarrow> string" where
  "interpret_ac_source v =
     (if v = 0 then ''Unavailable''
      else if v = 1 then ''Grid''
      else if v = 2 then ''Generator''
      else if v \<in> set [3, 4] then ''Shore''
      else if v = 240 then ''Inverting''
      else ''Unknown ('' @ str_int v @ '')'')"

subsection \<open>The three callbacks\<close>

text \<open>
  Each callback maps the bus answers and the controller to the new controller, its
  return value (\<open>True\<close>: stay armed) and its events.
\<close>

type_synonym outcome = "controller \<times> bool \<times> event list"

text \<open>The \<open>for\<close> loop of \<open>_find_water_heater_relay\<close> over the slots still to probe.\<close>

fun find_loop :: "(nat \<Rightarrow> string read_outcome) \<Rightarrow> nat list \<Rightarrow> controller \<Rightarrow> outcome" where
  "find_loop lab [] s = (s, True, [Log INFO NotFoundYet])"
| "find_loop lab (relay_number # rest) s =
     (let (custom_name, ev) =
            get_dbus_value SETTINGS_SERVICE_NAME (RelayCustomName relay_number) (lab relay_number)
      in if (case custom_name of None \<Rightarrow> False | Some c \<Rightarrow> c \<in> set TARGET_CUSTOM_NAMES)
         then (s\<lparr>water_heater_relay_number := Some relay_number, relay_found := True\<rparr>,
               False,
               ev @ [Log INFO (FoundRelay relay_number), TimeoutAdd 1 InitializeMonitoring])
         else (let (s', keep, ev') = find_loop lab rest s in (s', keep, ev @ ev')))"

definition find_water_heater_relay :: "bus \<Rightarrow> controller \<Rightarrow> outcome" where
  "find_water_heater_relay b s =
     (if relay_found s then (s, False, [])
      else (let (s', keep, ev) = find_loop (custom_name_read b) [0..<MAX_RELAY_NUMBER_TO_CHECK] s
            in (s', keep, Log INFO (AttemptingToFind TARGET_CUSTOM_NAMES) # ev)))"

definition initialize_monitoring :: "bus \<Rightarrow> controller \<Rightarrow> outcome" where
  "initialize_monitoring b s =
     (if initial_state_set s \<or> water_heater_relay_number s = None then (s, False, [])
      else
        (let (source_value, ev1) =
               get_dbus_value SYSTEM_SERVICE AC_ACTIVE_INPUT_SOURCE_PATH (ac_source_read b)
         in case source_value of
              Some v \<Rightarrow>
                (let (s1, ev2) =
                       (if ac_source_unavailable_warning_logged s
                        then (s\<lparr>ac_source_unavailable_warning_logged := False\<rparr>,
                              [Log INFO InitNowAvailable])
                        else (s, []));
                     source_text = interpret_ac_source v;
                     ev3 = [Log INFO (InitialSource source_text)];
                     (_, ev4) =
                       (if source_text \<in> set [''Grid'', ''Shore'']
                        then set_relay_state (water_heater_relay_number s1) 1 (relay_state_write b)
                        else set_relay_state (water_heater_relay_number s1) 0 (relay_state_write b));
                     s2 = s1\<lparr>previous_ac_source := Some v, initial_state_set := True\<rparr>
                 in (s2, False, ev1 @ ev2 @ ev3 @ ev4 @ [TimeoutAdd 5 MonitorAcInputSource]))
            | None \<Rightarrow>
                (if \<not> ac_source_unavailable_warning_logged s
                 then (s\<lparr>ac_source_unavailable_warning_logged := True\<rparr>, True,
                       ev1 @ [Log WARNING InitNotAvailable])
                 else (s, True, ev1))))"

definition monitor_ac_input_source :: "bus \<Rightarrow> controller \<Rightarrow> outcome" where
  "monitor_ac_input_source b s =
     (if \<not> initial_state_set s \<or> water_heater_relay_number s = None then (s, True, [])
      else
        (let (source_value, ev1) =
               get_dbus_value SYSTEM_SERVICE AC_ACTIVE_INPUT_SOURCE_PATH (ac_source_read b)
         in case source_value of
              Some v \<Rightarrow>
                (let (s1, ev2) =
                       (if ac_source_unavailable_warning_logged s
                        then (s\<lparr>ac_source_unavailable_warning_logged := False\<rparr>,
                              [Log INFO MonitorNowAvailable])
                        else (s, []))
                 in if Some v \<noteq> previous_ac_source s1
                    then
                      (let source_text = interpret_ac_source v;
                           ev3 = [Log INFO (SourceChanged source_text v)];
                           (_, ev4) =
                             (if source_text \<in> set [''Grid'', ''Shore'']
                              then set_relay_state (water_heater_relay_number s1) 1 (relay_state_write b)
                              else set_relay_state (water_heater_relay_number s1) 0 (relay_state_write b));
                           s2 = s1\<lparr>previous_ac_source := Some v\<rparr>
                       in (s2, True, ev1 @ ev2 @ ev3 @ ev4))
                    else (s1, True, ev1 @ ev2))
            | None \<Rightarrow>
                (if \<not> ac_source_unavailable_warning_logged s
                 then (s\<lparr>ac_source_unavailable_warning_logged := True\<rparr>, True,
                       ev1 @ [Log WARNING MonitorCouldNotRead])
                 else (s, True, ev1))))"

fun run_callback :: "callback \<Rightarrow> bus \<Rightarrow> controller \<Rightarrow> outcome" where
  "run_callback FindWaterHeaterRelay b s = find_water_heater_relay b s"
| "run_callback InitializeMonitoring b s = initialize_monitoring b s"
| "run_callback MonitorAcInputSource b s = monitor_ac_input_source b s"

subsection \<open>Observations on an outcome\<close>

definition new_state :: "outcome \<Rightarrow> controller" where
  "new_state r = fst r"

definition stays_armed :: "outcome \<Rightarrow> bool" where
  "stays_armed r = fst (snd r)"

definition events :: "outcome \<Rightarrow> event list" where
  "events r = snd (snd r)"

text \<open>The relay writes of a trace: slot and value of every call of \<open>_set_relay_state\<close>.\<close>

fun relay_writes :: "event list \<Rightarrow> (nat \<times> int) list" where
  "relay_writes [] = []"
| "relay_writes (Write SYSTEM_SERVICE (RelayState n) v # ev) = (n, v) # relay_writes ev"
| "relay_writes (_ # ev) = relay_writes ev"

text \<open>The timers a trace registers.\<close>

fun scheduled :: "event list \<Rightarrow> callback list" where
  "scheduled [] = []"
| "scheduled (TimeoutAdd _ c # ev) = c # scheduled ev"
| "scheduled (_ # ev) = scheduled ev"

text \<open>The log records of a trace at one level.\<close>

fun logged :: "level \<Rightarrow> event list \<Rightarrow> message list" where
  "logged l [] = []"
| "logged l (Log l' m # ev) = (if l' = l then m # logged l ev else logged l ev)"
| "logged l (_ # ev) = logged l ev"

subsection \<open>The main loop\<close>

text \<open>
  The GLib main loop holds the registered timeouts.  It only ever dispatches a callback
  that is registered; a callback that returns \<open>False\<close> is removed, and every
  \<open>timeout_add_seconds\<close> of the callback is added.  A schedule is the list of
  callbacks the loop dispatches, each with what the bus answers meanwhile; a schedule
  that names a callback that is not registered is no run of the program (\<open>None\<close>).
\<close>

type_synonym system = "controller \<times> callback list"

definition init_system :: system where
  "init_system = (init_controller, scheduled init_events)"

definition dispatch :: "callback \<Rightarrow> bus \<Rightarrow> system \<Rightarrow> (system \<times> event list) option" where
  "dispatch c b sys =
     (if c \<in> set (snd sys)
      then (let r = run_callback c b (fst sys)
            in Some ((new_state r,
                      (if stays_armed r then snd sys else remove1 c (snd sys)) @ scheduled (events r)),
                     events r))
      else None)"

text \<open>\<open>run\<close> returns the final system and the trace of every tick.\<close>

fun run :: "(callback \<times> bus) list \<Rightarrow> system \<Rightarrow> (system \<times> event list list) option" where
  "run [] sys = Some (sys, [])"
| "run ((c, b) # rest) sys =
     (case dispatch c b sys of
        None \<Rightarrow> None
      | Some (sys', ev) \<Rightarrow>
          (case run rest sys' of
             None \<Rightarrow> None
           | Some (sys'', evs) \<Rightarrow> Some (sys'', ev # evs)))"

text \<open>
  The callbacks run in any order at all, registered or not, on the controller alone:
  every run of the main loop is one of these.
\<close>

fun exec :: "(callback \<times> bus) list \<Rightarrow> controller \<Rightarrow> controller" where
  "exec [] s = s"
| "exec ((c, b) # rest) s = exec rest (new_state (run_callback c b s))"

subsection \<open>Vocabulary of the specification\<close>

text \<open>The value an AC source read yields, if any.\<close>

definition read_of :: "bus \<Rightarrow> int option" where
  "read_of b = (case ac_source_read b of Got v \<Rightarrow> Some v | _ \<Rightarrow> None)"

text \<open>
  The AC source readings of a schedule, in order: one per tick of the initializer or the
  monitor, \<open>None\<close> for a failed read.
\<close>

fun readings :: "(callback \<times> bus) list \<Rightarrow> int option list" where
  "readings [] = []"
| "readings ((c, b) # rest) =
     (if c = FindWaterHeaterRelay then readings rest else read_of b # readings rest)"

text \<open>The last value read successfully, if any.\<close>

fun last_value :: "int option list \<Rightarrow> int option" where
  "last_value [] = None"
| "last_value (r # rs) = (case last_value rs of Some v \<Rightarrow> Some v | None \<Rightarrow> r)"

text \<open>Whether the latest reading is a failed one: an unavailability episode is open.\<close>

definition unavailable :: "int option list \<Rightarrow> bool" where
  "unavailable h = (h \<noteq> [] \<and> last h = None)"

text \<open>The recovery notes of a trace.\<close>

definition recoveries :: "event list \<Rightarrow> message list" where
  "recoveries ev = filter (\<lambda>m. m = InitNowAvailable \<or> m = MonitorNowAvailable) (logged INFO ev)"

text \<open>The slots a trace probes for their label, in order.\<close>

fun probed :: "event list \<Rightarrow> nat list" where
  "probed [] = []"
| "probed (Read SETTINGS_SERVICE_NAME (RelayCustomName n) # ev) = n # probed ev"
| "probed (_ # ev) = probed ev"

text \<open>A slot matches when its label is read and is one of the target names.\<close>

definition matches :: "(nat \<Rightarrow> string read_outcome) \<Rightarrow> nat \<Rightarrow> bool" where
  "matches lab n = (case lab n of Got c \<Rightarrow> c \<in> set TARGET_CUSTOM_NAMES | _ \<Rightarrow> False)"

text \<open>The events of probing one slot.\<close>

definition probe :: "(nat \<Rightarrow> string read_outcome) \<Rightarrow> nat \<Rightarrow> event list" where
  "probe lab n = snd (get_dbus_value SETTINGS_SERVICE_NAME (RelayCustomName n) (lab n))"

subsection \<open>Concrete inputs\<close>

text \<open>The controller once slot \<open>n\<close> is located, and once the initial state is set from \<open>v\<close>.\<close>

definition located :: "nat \<Rightarrow> controller" where
  "located n = init_controller\<lparr>water_heater_relay_number := Some n, relay_found := True\<rparr>"

definition monitoring :: "nat \<Rightarrow> int \<Rightarrow> controller" where
  "monitoring n v = (located n)\<lparr>previous_ac_source := Some v, initial_state_set := True\<rparr>"

text \<open>Slots 0..9 labelled as in the scenario, with a second match at slot 5.\<close>

definition scenario_labels :: "nat \<Rightarrow> string read_outcome" where
  "scenario_labels n =
     (if n = 0 then Got ''Bilge''
      else if n = 1 then Got ''AC Water Heater''
      else if n = 2 then Got ''Lights''
      else if n = 5 then Got ''AC WH''
      else NoObject)"

definition failing_labels :: "nat \<Rightarrow> string read_outcome" where
  "failing_labels n = (if n = 3 then GetValueFailed else if n = 4 then Got ''Lights'' else NoObject)"

definition answers :: "int read_outcome \<Rightarrow> write_outcome \<Rightarrow> bus" where
  "answers r w = \<lparr>custom_name_read = scenario_labels, ac_source_read = r, relay_state_write = w\<rparr>"

definition no_relay_yet :: bus where
  "no_relay_yet = \<lparr>custom_name_read = failing_labels, ac_source_read = Got 1,
                   relay_state_write = SetValueOk\<rparr>"

subsection \<open>Reading a decimal numeral back\<close>

definition digit_value :: "char \<Rightarrow> nat" where
  "digit_value c = of_char c - 48"

definition nat_of_digits :: "string \<Rightarrow> nat" where
  "nat_of_digits cs = foldl (\<lambda>a c. 10 * a + digit_value c) 0 cs"

subsection \<open>What a tick is expected to do, from the readings before it\<close>

text \<open>
  The relay write of a tick: none on a locator tick or a failed read; on a read of
  \<open>v\<close>, none if \<open>v\<close> is the last value read, else one write of 1 for the codes 1, 3
  and 4 and of 0 for the others.
\<close>

definition expected_relay_writes ::
    "nat option \<Rightarrow> int option list \<Rightarrow> callback \<Rightarrow> bus \<Rightarrow> (nat \<times> int) list" where
  "expected_relay_writes relay h c b =
     (if c = FindWaterHeaterRelay then []
      else (case (relay, read_of b) of
              (Some n, Some v) \<Rightarrow>
                if last_value h = Some v then [] else [(n, if v \<in> {1, 3, 4} then 1 else 0)]
            | _ \<Rightarrow> []))"

text \<open>One warning on the first failed read of an episode, one recovery note on the read that ends it.\<close>

definition expected_warnings :: "int option list \<Rightarrow> callback \<Rightarrow> bus \<Rightarrow> message list" where
  "expected_warnings h c b =
     (if c \<noteq> FindWaterHeaterRelay \<and> read_of b = None \<and> \<not> unavailable h
      then [if c = InitializeMonitoring then InitNotAvailable else MonitorCouldNotRead]
      else [])"

definition expected_recoveries :: "int option list \<Rightarrow> callback \<Rightarrow> bus \<Rightarrow> message list" where
  "expected_recoveries h c b =
     (if c \<noteq> FindWaterHeaterRelay \<and> read_of b \<noteq> None \<and> unavailable h
      then [if c = InitializeMonitoring then InitNowAvailable else MonitorNowAvailable]
      else [])"

text \<open>
  How the system stands after the readings \<open>h\<close>: exactly one callback is registered,
  and the controller's fields follow from the phase and from \<open>h\<close>.
\<close>

definition consistent :: "int option list \<Rightarrow> system \<Rightarrow> bool" where
  "consistent h sys =
     (ac_source_unavailable_warning_logged (fst sys) = unavailable h \<and>
      previous_ac_source (fst sys) = last_value h \<and>
      (snd sys = [FindWaterHeaterRelay] \<and> h = [] \<and> \<not> relay_found (fst sys) \<and>
         water_heater_relay_number (fst sys) = None \<and> \<not> initial_state_set (fst sys)
       \<or> snd sys = [InitializeMonitoring] \<and> relay_found (fst sys) \<and>
         water_heater_relay_number (fst sys) \<noteq> None \<and> \<not> initial_state_set (fst sys) \<and>
         last_value h = None
       \<or> snd sys = [MonitorAcInputSource] \<and> relay_found (fst sys) \<and>
         water_heater_relay_number (fst sys) \<noteq> None \<and> initial_state_set (fst sys) \<and>
         last_value h \<noteq> None))"

text \<open>What tick \<open>i\<close> of a run does, from the readings before it.\<close>

definition tick_as_expected ::
    "int option list \<Rightarrow> (callback \<times> bus) list \<Rightarrow> system \<Rightarrow> event list list \<Rightarrow> nat \<Rightarrow> bool" where
  "tick_as_expected h sched sys' trs i =
     (relay_writes (trs ! i) =
        expected_relay_writes (water_heater_relay_number (fst sys'))
          (h @ readings (take i sched)) (fst (sched ! i)) (snd (sched ! i)) \<and>
      logged WARNING (trs ! i) =
        expected_warnings (h @ readings (take i sched)) (fst (sched ! i)) (snd (sched ! i)) \<and>
      recoveries (trs ! i) =
        expected_recoveries (h @ readings (take i sched)) (fst (sched ! i)) (snd (sched ! i)) \<and>
      (fst (sched ! i) \<noteq> FindWaterHeaterRelay \<longrightarrow> water_heater_relay_number (fst sys') \<noteq> None))"

text \<open>
  A run of the scenario: a scan that finds nothing, a scan that finds slot 1, an
  initializer tick that cannot read, then the readings 1, 1, 3, 3, two failed reads, and
  0 with the relay write failing.
\<close>

definition scenario :: "(callback \<times> bus) list" where
  "scenario =
     [(FindWaterHeaterRelay, no_relay_yet),
      (FindWaterHeaterRelay, answers NoObject SetValueOk),
      (InitializeMonitoring, answers NoObject SetValueOk),
      (InitializeMonitoring, answers (Got 1) SetValueOk),
      (MonitorAcInputSource, answers (Got 1) SetValueOk),
      (MonitorAcInputSource, answers (Got 3) SetValueOk),
      (MonitorAcInputSource, answers (Got 3) SetValueOk),
      (MonitorAcInputSource, answers GetValueFailed SetValueOk),
      (MonitorAcInputSource, answers NoObject SetValueOk),
      (MonitorAcInputSource, answers (Got 0) SetValueFailed)]"

section \<open>Properties\<close>

subsection \<open>Helper lemmas\<close>

lemma relay_writes_append: "relay_writes (xs @ ys) = relay_writes xs @ relay_writes ys"
  by (induction xs rule: relay_writes.induct) auto

lemma scheduled_append: "scheduled (xs @ ys) = scheduled xs @ scheduled ys"
  by (induction xs rule: scheduled.induct) auto

lemma logged_append: "logged l (xs @ ys) = logged l xs @ logged l ys"
  by (induction xs rule: logged.induct) auto

lemma on_iff: "interpret_ac_source v \<in> set [''Grid'', ''Shore''] \<longleftrightarrow> v \<in> {1, 3, 4}"
  by (auto simp: interpret_ac_source_def)

lemma set_relay_state_result: "fst (set_relay_state (Some n) v w) = (w = SetValueOk)"
  by (cases w) (simp_all add: set_relay_state_def)

text \<open>The two callbacks that read the AC source, on a tick that passes the guard.\<close>

lemma initialize_monitoring_got:
  assumes "\<not> initial_state_set s" "water_heater_relay_number s = Some n" "ac_source_read b = Got v"
  shows "new_state (initialize_monitoring b s) =
           s\<lparr>ac_source_unavailable_warning_logged := False,
             previous_ac_source := Some v, initial_state_set := True\<rparr>"
    and "\<not> stays_armed (initialize_monitoring b s)"
    and "relay_writes (events (initialize_monitoring b s)) = [(n, if v \<in> {1, 3, 4} then 1 else 0)]"
    and "scheduled (events (initialize_monitoring b s)) = [MonitorAcInputSource]"
    and "logged WARNING (events (initialize_monitoring b s)) = []"
  using assms on_iff [of v]
  by (cases "relay_state_write b";
      simp add: initialize_monitoring_def new_state_def stays_armed_def events_def
        get_dbus_value_def set_relay_state_def Let_def)+

lemma initialize_monitoring_failed:
  assumes "\<not> initial_state_set s" "water_heater_relay_number s = Some n"
    "ac_source_read b = NoObject \<or> ac_source_read b = GetValueFailed"
  shows "new_state (initialize_monitoring b s) = s\<lparr>ac_source_unavailable_warning_logged := True\<rparr>"
    and "stays_armed (initialize_monitoring b s)"
    and "relay_writes (events (initialize_monitoring b s)) = []"
    and "scheduled (events (initialize_monitoring b s)) = []"
    and "logged WARNING (events (initialize_monitoring b s)) =
           (if ac_source_unavailable_warning_logged s then [] else [InitNotAvailable])"
  using assms
  by (auto simp: initialize_monitoring_def new_state_def stays_armed_def events_def
        get_dbus_value_def Let_def)

lemma monitor_ac_input_source_got:
  assumes "initial_state_set s" "water_heater_relay_number s = Some n" "ac_source_read b = Got v"
  shows "new_state (monitor_ac_input_source b s) =
           s\<lparr>ac_source_unavailable_warning_logged := False, previous_ac_source := Some v\<rparr>"
    and "stays_armed (monitor_ac_input_source b s)"
    and "relay_writes (events (monitor_ac_input_source b s)) =
           (if previous_ac_source s = Some v then [] else [(n, if v \<in> {1, 3, 4} then 1 else 0)])"
    and "scheduled (events (monitor_ac_input_source b s)) = []"
    and "logged WARNING (events (monitor_ac_input_source b s)) = []"
  using assms on_iff [of v]
  by (cases "relay_state_write b";
      auto simp: monitor_ac_input_source_def new_state_def stays_armed_def events_def
        get_dbus_value_def set_relay_state_def Let_def)+

lemma monitor_ac_input_source_failed:
  assumes "initial_state_set s" "water_heater_relay_number s = Some n"
    "ac_source_read b = NoObject \<or> ac_source_read b = GetValueFailed"
  shows "new_state (monitor_ac_input_source b s) = s\<lparr>ac_source_unavailable_warning_logged := True\<rparr>"
    and "stays_armed (monitor_ac_input_source b s)"
    and "relay_writes (events (monitor_ac_input_source b s)) = []"
    and "scheduled (events (monitor_ac_input_source b s)) = []"
    and "logged WARNING (events (monitor_ac_input_source b s)) =
           (if ac_source_unavailable_warning_logged s then [] else [MonitorCouldNotRead])"
  using assms
  by (auto simp: monitor_ac_input_source_def new_state_def stays_armed_def events_def
        get_dbus_value_def Let_def)

subsection \<open>The guards of the initializer and of the monitor\<close>

text \<open>
  Claim C10.  An initializer tick that finds the initial state already set, or no relay
  located, leaves the controller as it is, calls neither registry helper, logs nothing,
  registers no timer, and returns \<open>False\<close>: its timer is removed.  The monitor's guard,
  on its side of the same test, does nothing either but returns \<open>True\<close> and stays armed.
\<close>

theorem initializer_guard_disarms:
  "(initial_state_set s \<or> water_heater_relay_number s = None \<longrightarrow>
      new_state (initialize_monitoring b s) = s \<and>
      events (initialize_monitoring b s) = [] \<and>
      \<not> stays_armed (initialize_monitoring b s)) \<and>
   (\<not> initial_state_set s \<or> water_heater_relay_number s = None \<longrightarrow>
      new_state (monitor_ac_input_source b s) = s \<and>
      events (monitor_ac_input_source b s) = [] \<and>
      stays_armed (monitor_ac_input_source b s))"
  by (simp add: initialize_monitoring_def monitor_ac_input_source_def
      new_state_def events_def stays_armed_def)

theorem initializer_guard_disarms_witness:
  "(initial_state_set init_controller \<or> water_heater_relay_number init_controller = None) \<and>
   new_state (initialize_monitoring (answers (Got 1) SetValueOk) init_controller) = init_controller \<and>
   events (initialize_monitoring (answers (Got 1) SetValueOk) init_controller) = [] \<and>
   \<not> stays_armed (initialize_monitoring (answers (Got 1) SetValueOk) init_controller) \<and>
   stays_armed (monitor_ac_input_source (answers (Got 1) SetValueOk) init_controller) \<and>
   initial_state_set (monitoring 2 1) \<and>
   new_state (initialize_monitoring (answers (Got 0) SetValueOk) (monitoring 2 1)) = monitoring 2 1 \<and>
   events (initialize_monitoring (answers (Got 0) SetValueOk) (monitoring 2 1)) = [] \<and>
   \<not> stays_armed (initialize_monitoring (answers (Got 0) SetValueOk) (monitoring 2 1))"
  using initializer_guard_disarms [of init_controller "answers (Got 1) SetValueOk"]
    initializer_guard_disarms [of "monitoring 2 1" "answers (Got 0) SetValueOk"]
  by (simp add: init_controller_def monitoring_def located_def)

subsection \<open>The monitor on a failed read\<close>

text \<open>
  Claim C5.  On a monitor tick that reads the AC source and fails (the object is not
  there, or fetching its value raises), no relay write is issued; the previous source
  value, the initial-state flag and the located relay stay as they were; the warning
  flag is the only field that may change (it ends up set); the callback returns
  \<open>True\<close>, so its timer stays armed, and it registers no timer.
\<close>

theorem monitor_failed_read_frame:
  assumes "initial_state_set s" and "water_heater_relay_number s = Some n"
    and "ac_source_read b = NoObject \<or> ac_source_read b = GetValueFailed"
  shows "relay_writes (events (monitor_ac_input_source b s)) = [] \<and>
         new_state (monitor_ac_input_source b s) = s\<lparr>ac_source_unavailable_warning_logged := True\<rparr> \<and>
         previous_ac_source (new_state (monitor_ac_input_source b s)) = previous_ac_source s \<and>
         initial_state_set (new_state (monitor_ac_input_source b s)) = initial_state_set s \<and>
         water_heater_relay_number (new_state (monitor_ac_input_source b s)) =
           water_heater_relay_number s \<and>
         stays_armed (monitor_ac_input_source b s) \<and>
         scheduled (events (monitor_ac_input_source b s)) = []"
  using monitor_ac_input_source_failed [OF assms] by simp

theorem monitor_failed_read_frame_witness:
  "initial_state_set (monitoring 2 1) \<and>
   water_heater_relay_number (monitoring 2 1) = Some 2 \<and>
   relay_writes (events (monitor_ac_input_source (answers GetValueFailed SetValueOk) (monitoring 2 1))) = [] \<and>
   new_state (monitor_ac_input_source (answers GetValueFailed SetValueOk) (monitoring 2 1)) =
     (monitoring 2 1)\<lparr>ac_source_unavailable_warning_logged := True\<rparr> \<and>
   stays_armed (monitor_ac_input_source (answers GetValueFailed SetValueOk) (monitoring 2 1))"
  using monitor_failed_read_frame [of "monitoring 2 1" 2 "answers GetValueFailed SetValueOk"]
  by (simp add: monitoring_def located_def init_controller_def answers_def)

subsection \<open>The monitor on a changed value\<close>

text \<open>
  Claim C6.  On a monitor tick that reads a value different from the previous source
  value, the previous source value becomes the value read, whatever happens to the relay
  write: \<open>_set_relay_state\<close> returns \<open>True\<close> only when \<open>SetValue\<close> went through,
  and the monitor does not look at what it returns.
\<close>

theorem monitor_baseline_advances:
  assumes "initial_state_set s" and "water_heater_relay_number s = Some n"
    and "ac_source_read b = Got v" and "previous_ac_source s \<noteq> Some v"
  shows "previous_ac_source (new_state (monitor_ac_input_source b s)) = Some v \<and>
         relay_writes (events (monitor_ac_input_source b s)) = [(n, if v \<in> {1, 3, 4} then 1 else 0)] \<and>
         fst (set_relay_state (water_heater_relay_number s) (if v \<in> {1, 3, 4} then 1 else 0)
                (relay_state_write b)) = (relay_state_write b = SetValueOk) \<and>
         stays_armed (monitor_ac_input_source b s)"
  using monitor_ac_input_source_got [OF assms(1-3)] assms(2,4)
  by (simp add: set_relay_state_result)

theorem monitor_baseline_advances_witness:
  "initial_state_set (monitoring 2 1) \<and>
   previous_ac_source (monitoring 2 1) \<noteq> Some 2 \<and>
   \<not> fst (set_relay_state (Some 2) 0 SetValueFailed) \<and>
   \<not> fst (set_relay_state (Some 2) 0 WNoObject) \<and>
   previous_ac_source (new_state (monitor_ac_input_source (answers (Got 2) SetValueFailed) (monitoring 2 1))) = Some 2 \<and>
   previous_ac_source (new_state (monitor_ac_input_source (answers (Got 2) WNoObject) (monitoring 2 1))) = Some 2"
  using monitor_baseline_advances [of "monitoring 2 1" 2 "answers (Got 2) SetValueFailed" 2]
    monitor_baseline_advances [of "monitoring 2 1" 2 "answers (Got 2) WNoObject" 2]
  by (simp add: monitoring_def located_def init_controller_def answers_def)

subsection \<open>The relay command\<close>

text \<open>
  Claim C3.  For every integer code \<open>v\<close>, the code is classified Grid or Shore exactly
  when it is 1, 3 or 4, and the value written to the relay is 1 for these codes and 0 for
  every other, both in the initializer (on its tick that reads \<open>v\<close>) and in the monitor
  (on a tick that reads \<open>v\<close> as a changed value).
\<close>

theorem relay_command_on_iff_grid_or_shore:
  assumes "water_heater_relay_number s = Some n" and "ac_source_read b = Got v"
  shows "(interpret_ac_source v \<in> {''Grid'', ''Shore''} \<longleftrightarrow> v \<in> {1, 3, 4}) \<and>
         (\<not> initial_state_set s \<longrightarrow>
            relay_writes (events (initialize_monitoring b s)) = [(n, if v \<in> {1, 3, 4} then 1 else 0)]) \<and>
         (initial_state_set s \<and> previous_ac_source s \<noteq> Some v \<longrightarrow>
            relay_writes (events (monitor_ac_input_source b s)) = [(n, if v \<in> {1, 3, 4} then 1 else 0)])"
  using on_iff [of v] initialize_monitoring_got(3) [OF _ assms] monitor_ac_input_source_got(3) [OF _ assms]
  by auto

theorem relay_command_on_iff_grid_or_shore_witness:
  "relay_writes (events (initialize_monitoring (answers (Got 3) SetValueOk) (located 2))) = [(2, 1)] \<and>
   relay_writes (events (initialize_monitoring (answers (Got 240) SetValueOk) (located 2))) = [(2, 0)] \<and>
   relay_writes (events (monitor_ac_input_source (answers (Got 4) SetValueOk) (monitoring 2 1))) = [(2, 1)] \<and>
   relay_writes (events (monitor_ac_input_source (answers (Got 7) SetValueOk) (monitoring 2 1))) = [(2, 0)]"
  using relay_command_on_iff_grid_or_shore [of "located 2" 2 "answers (Got 3) SetValueOk" 3]
    relay_command_on_iff_grid_or_shore [of "located 2" 2 "answers (Got 240) SetValueOk" 240]
    relay_command_on_iff_grid_or_shore [of "monitoring 2 1" 2 "answers (Got 4) SetValueOk" 4]
    relay_command_on_iff_grid_or_shore [of "monitoring 2 1" 2 "answers (Got 7) SetValueOk" 7]
  by (simp add: monitoring_def located_def init_controller_def answers_def)

subsection \<open>Classification of the source code\<close>

lemma digit_cases: "d < 10 \<Longrightarrow> d = 0 \<or> d = 1 \<or> d = 2 \<or> d = 3 \<or> d = 4 \<or> d = 5 \<or> d = 6 \<or> d = 7 \<or> d = 8 \<or> d = (9::nat)"
  by arith

lemma digit_value_digit_char: "d < 10 \<Longrightarrow> digit_value (digit_char d) = d"
  using digit_cases [of d] by (auto simp: digit_value_def digit_char_def)

lemma digit_char_not_minus: "d < 10 \<Longrightarrow> digit_char d \<noteq> CHR ''-''"
  using digit_cases [of d] by (auto simp: digit_char_def)

lemma nat_of_digits_snoc: "nat_of_digits (cs @ [c]) = 10 * nat_of_digits cs + digit_value c"
  by (simp add: nat_of_digits_def)

lemma nat_of_digits_str_nat: "nat_of_digits (str_nat n) = n"
proof (induction n rule: str_nat.induct)
  case (1 n)
  show ?case
  proof (cases "n < 10")
    case True
    then show ?thesis
      by (simp add: str_nat.simps [of n] nat_of_digits_def digit_value_digit_char)
  next
    case False
    then have "nat_of_digits (str_nat n) = 10 * (n div 10) + n mod 10"
      using "1.IH" by (simp add: str_nat.simps [of n] nat_of_digits_snoc digit_value_digit_char)
    then show ?thesis by simp
  qed
qed

lemma str_nat_hd: "\<exists>d cs. d < 10 \<and> str_nat n = digit_char d # cs"
proof (induction n rule: str_nat.induct)
  case (1 n)
  show ?case
  proof (cases "n < 10")
    case True
    then show ?thesis by (auto simp: str_nat.simps [of n])
  next
    case False
    with "1.IH" obtain d cs where "d < 10" "str_nat (n div 10) = digit_char d # cs" by auto
    with False show ?thesis by (auto simp: str_nat.simps [of n])
  qed
qed

lemma str_nat_not_minus: "str_nat n \<noteq> CHR ''-'' # cs"
proof
  assume eq: "str_nat n = CHR ''-'' # cs"
  from str_nat_hd [of n] obtain d ds where d: "d < 10" "str_nat n = digit_char d # ds" by blast
  with eq have "digit_char d = CHR ''-''" by simp
  with digit_char_not_minus [OF d(1)] show False by simp
qed

lemma str_nat_inj: "str_nat m = str_nat n \<Longrightarrow> m = n"
  by (metis nat_of_digits_str_nat)

lemma str_int_inj:
  assumes "str_int i = str_int j"
  shows "i = j"
proof (cases "i < 0"; cases "j < 0")
  assume "i < 0" "j < 0"
  with assms have "str_nat (nat (- i)) = str_nat (nat (- j))" by (simp add: str_int_def)
  then have "nat (- i) = nat (- j)" by (rule str_nat_inj)
  with \<open>i < 0\<close> \<open>j < 0\<close> show ?thesis by simp
next
  assume "i < 0" "\<not> j < 0"
  with assms have "str_nat (nat j) = CHR ''-'' # str_nat (nat (- i))" by (simp add: str_int_def)
  with str_nat_not_minus show ?thesis by blast
next
  assume "\<not> i < 0" "j < 0"
  with assms have "str_nat (nat i) = CHR ''-'' # str_nat (nat (- j))" by (simp add: str_int_def)
  with str_nat_not_minus show ?thesis by blast
next
  assume "\<not> i < 0" "\<not> j < 0"
  with assms have "str_nat (nat i) = str_nat (nat j)" by (simp add: str_int_def)
  then have "nat i = nat j" by (rule str_nat_inj)
  with \<open>\<not> i < 0\<close> \<open>\<not> j < 0\<close> show ?thesis by simp
qed

lemma interpret_unknown:
  "v \<notin> {0, 1, 2, 3, 4, 240} \<Longrightarrow> interpret_ac_source v = ''Unknown ('' @ str_int v @ '')''"
  by (simp add: interpret_ac_source_def)

lemma interpret_known_not_unknown:
  "w \<in> {0, 1, 2, 3, 4, 240} \<Longrightarrow> interpret_ac_source w \<noteq> ''Unknown ('' @ cs"
  by (auto simp: interpret_ac_source_def)

text \<open>
  Claim C8.  \<open>_interpret_ac_source\<close> depends on the code alone.  It maps 0 to
  Unavailable, 1 to Grid, 2 to Generator, 3 and 4 to Shore, 240 to Inverting, and every
  other integer \<open>v\<close> to the label Unknown with the decimal numeral of \<open>v\<close> in
  brackets; no other code has that label, so the label carries the code.  For such a
  \<open>v\<close> the value written to the relay is 0, in the initializer and in the monitor.
\<close>

theorem interpret_ac_source_classifies:
  "interpret_ac_source 0 = ''Unavailable'' \<and>
   interpret_ac_source 1 = ''Grid'' \<and>
   interpret_ac_source 2 = ''Generator'' \<and>
   interpret_ac_source 3 = ''Shore'' \<and>
   interpret_ac_source 4 = ''Shore'' \<and>
   interpret_ac_source 240 = ''Inverting'' \<and>
   (v \<notin> {0, 1, 2, 3, 4, 240} \<longrightarrow>
      interpret_ac_source v = ''Unknown ('' @ str_int v @ '')'' \<and>
      (\<forall>w. interpret_ac_source w = interpret_ac_source v \<longrightarrow> w = v) \<and>
      (\<forall>s b n. \<not> initial_state_set s \<and> water_heater_relay_number s = Some n \<and> ac_source_read b = Got v \<longrightarrow>
         relay_writes (events (initialize_monitoring b s)) = [(n, 0)]) \<and>
      (\<forall>s b n. initial_state_set s \<and> water_heater_relay_number s = Some n \<and> ac_source_read b = Got v \<and>
           previous_ac_source s \<noteq> Some v \<longrightarrow>
         relay_writes (events (monitor_ac_input_source b s)) = [(n, 0)]))"
proof -
  have known: "interpret_ac_source 0 = ''Unavailable''" "interpret_ac_source 1 = ''Grid''"
    "interpret_ac_source 2 = ''Generator''" "interpret_ac_source 3 = ''Shore''"
    "interpret_ac_source 4 = ''Shore''" "interpret_ac_source 240 = ''Inverting''"
    by (simp_all add: interpret_ac_source_def)
  have unknown: "interpret_ac_source v = ''Unknown ('' @ str_int v @ '')'' \<and>
      (\<forall>w. interpret_ac_source w = interpret_ac_source v \<longrightarrow> w = v) \<and>
      (\<forall>s b n. \<not> initial_state_set s \<and> water_heater_relay_number s = Some n \<and> ac_source_read b = Got v \<longrightarrow>
         relay_writes (events (initialize_monitoring b s)) = [(n, 0)]) \<and>
      (\<forall>s b n. initial_state_set s \<and> water_heater_relay_number s = Some n \<and> ac_source_read b = Got v \<and>
           previous_ac_source s \<noteq> Some v \<longrightarrow>
         relay_writes (events (monitor_ac_input_source b s)) = [(n, 0)])"
    if v: "v \<notin> {0, 1, 2, 3, 4, 240}"
  proof (intro conjI allI impI)
    show u: "interpret_ac_source v = ''Unknown ('' @ str_int v @ '')''"
      using v by (rule interpret_unknown)
    show "w = v" if eq: "interpret_ac_source w = interpret_ac_source v" for w
    proof (cases "w \<in> {0, 1, 2, 3, 4, 240}")
      case True
      from interpret_known_not_unknown [OF True, of "str_int v @ '')''"] eq u show ?thesis by simp
    next
      case False
      then have "interpret_ac_source w = ''Unknown ('' @ str_int w @ '')''"
        by (rule interpret_unknown)
      with eq u have "str_int w = str_int v" by simp
      then show ?thesis by (rule str_int_inj)
    qed
    show "relay_writes (events (initialize_monitoring b s)) = [(n, 0)]"
      if "\<not> initial_state_set s \<and> water_heater_relay_number s = Some n \<and> ac_source_read b = Got v"
      for s b n
      using initialize_monitoring_got(3) [of s n b v] that v by auto
    show "relay_writes (events (monitor_ac_input_source b s)) = [(n, 0)]"
      if "initial_state_set s \<and> water_heater_relay_number s = Some n \<and> ac_source_read b = Got v \<and>
           previous_ac_source s \<noteq> Some v"
      for s b n
      using monitor_ac_input_source_got(3) [of s n b v] that v by auto
  qed
  from known unknown show ?thesis by blast
qed

theorem interpret_ac_source_classifies_witness:
  "(7::int) \<notin> {0, 1, 2, 3, 4, 240} \<and>
   interpret_ac_source 7 = ''Unknown (7)'' \<and>
   interpret_ac_source (- 12) = ''Unknown (-12)'' \<and>
   relay_writes (events (initialize_monitoring (answers (Got 7) SetValueOk) (located 2))) = [(2, 0)] \<and>
   relay_writes (events (monitor_ac_input_source (answers (Got 7) SetValueOk) (monitoring 2 1))) = [(2, 0)]"
  using interpret_ac_source_classifies [of 7] interpret_ac_source_classifies [of "- 12"]
  by (simp add: str_int_def str_nat.simps digit_char_def answers_def located_def monitoring_def
      init_controller_def)

subsection \<open>The relay locator\<close>

lemma probed_append: "probed (xs @ ys) = probed xs @ probed ys"
  by (induction xs rule: probed.induct) auto

lemma probe_cases:
  "probe lab n =
     (if lab n = GetValueFailed
      then [Read SETTINGS_SERVICE_NAME (RelayCustomName n),
            Log ERROR (ErrorGettingValue SETTINGS_SERVICE_NAME (RelayCustomName n))]
      else [Read SETTINGS_SERVICE_NAME (RelayCustomName n)])"
  by (cases "lab n") (simp_all add: probe_def get_dbus_value_def)

lemma probe_probed: "probed (probe lab n) = [n]"
  by (simp add: probe_cases)

lemma probe_writes: "relay_writes (probe lab n) = []"
  by (simp add: probe_cases)

lemma probe_scheduled: "scheduled (probe lab n) = []"
  by (simp add: probe_cases)

lemma probe_warning: "logged WARNING (probe lab n) = []"
  by (simp add: probe_cases)

lemma probe_info: "logged INFO (probe lab n) = []"
  by (simp add: probe_cases)

lemma probe_error:
  "logged ERROR (probe lab n) =
     (if lab n = GetValueFailed then [ErrorGettingValue SETTINGS_SERVICE_NAME (RelayCustomName n)] else [])"
  by (simp add: probe_cases)

lemma find_loop_step:
  "find_loop lab (n # rest) s =
     (if matches lab n
      then (s\<lparr>water_heater_relay_number := Some n, relay_found := True\<rparr>, False,
            probe lab n @ [Log INFO (FoundRelay n), TimeoutAdd 1 InitializeMonitoring])
      else (new_state (find_loop lab rest s), stays_armed (find_loop lab rest s),
            probe lab n @ events (find_loop lab rest s)))"
  by (cases "lab n")
    (simp_all add: matches_def probe_def get_dbus_value_def new_state_def stays_armed_def
      events_def split: prod.splits)

lemma find_loop_no_match:
  "\<forall>n \<in> set ns. \<not> matches lab n \<Longrightarrow>
   find_loop lab ns s = (s, True, concat (map (probe lab) ns) @ [Log INFO NotFoundYet])"
proof (induction ns)
  case Nil
  show ?case by simp
next
  case (Cons n ns)
  then show ?case
    by (simp add: find_loop_step new_state_def stays_armed_def events_def del: find_loop.simps)
qed

lemma find_loop_first_match:
  "\<forall>n \<in> set pre. \<not> matches lab n \<Longrightarrow> matches lab k \<Longrightarrow>
   find_loop lab (pre @ k # post) s =
     (s\<lparr>water_heater_relay_number := Some k, relay_found := True\<rparr>, False,
      concat (map (probe lab) (pre @ [k])) @
        [Log INFO (FoundRelay k), TimeoutAdd 1 InitializeMonitoring])"
proof (induction pre)
  case Nil
  then show ?case by (simp add: find_loop_step del: find_loop.simps)
next
  case (Cons n pre)
  then show ?case
    by (simp add: find_loop_step new_state_def stays_armed_def events_def del: find_loop.simps)
qed

lemma probed_concat_probe: "probed (concat (map (probe lab) ns)) = ns"
  by (induction ns) (simp_all add: probed_append probe_probed)

lemma writes_concat_probe: "relay_writes (concat (map (probe lab) ns)) = []"
  by (induction ns) (simp_all add: relay_writes_append probe_writes)

lemma scheduled_concat_probe: "scheduled (concat (map (probe lab) ns)) = []"
  by (induction ns) (simp_all add: scheduled_append probe_scheduled)

lemma warning_concat_probe: "logged WARNING (concat (map (probe lab) ns)) = []"
  by (induction ns) (simp_all add: logged_append probe_warning)

lemma info_concat_probe: "logged INFO (concat (map (probe lab) ns)) = []"
  by (induction ns) (simp_all add: logged_append probe_info)

lemma error_concat_probe:
  "logged ERROR (concat (map (probe lab) ns)) =
     map (\<lambda>n. ErrorGettingValue SETTINGS_SERVICE_NAME (RelayCustomName n))
       (filter (\<lambda>n. lab n = GetValueFailed) ns)"
  by (induction ns) (simp_all add: logged_append probe_error)

lemma upt_split:
  assumes "k < m"
  shows "[0..<m] = [0..<k] @ k # [Suc k..<m]"
proof -
  have "[0..<k + (m - k)] = [0..<k] @ [k..<k + (m - k)]"
    by (rule upt_add_eq_append) simp
  moreover have "k + (m - k) = m" using assms by simp
  ultimately have "[0..<m] = [0..<k] @ [k..<m]" by simp
  moreover have "[k..<m] = k # [Suc k..<m]" using assms by (rule upt_conv_Cons)
  ultimately show ?thesis by simp
qed

text \<open>The whole scan.\<close>

lemma find_water_heater_relay_found:
  assumes "\<not> relay_found s" "k < MAX_RELAY_NUMBER_TO_CHECK" "matches (custom_name_read b) k"
    "\<forall>j < k. \<not> matches (custom_name_read b) j"
  shows "find_water_heater_relay b s =
     (s\<lparr>water_heater_relay_number := Some k, relay_found := True\<rparr>, False,
      Log INFO (AttemptingToFind TARGET_CUSTOM_NAMES) #
        concat (map (probe (custom_name_read b)) [0..<Suc k]) @
        [Log INFO (FoundRelay k), TimeoutAdd 1 InitializeMonitoring])"
proof -
  have "\<forall>n \<in> set [0..<k]. \<not> matches (custom_name_read b) n" using assms(4) by simp
  from find_loop_first_match [OF this assms(3), of "[Suc k..<MAX_RELAY_NUMBER_TO_CHECK]" s]
  show ?thesis
    using assms(1) upt_split [OF assms(2)] by (simp add: find_water_heater_relay_def)
qed

lemma find_water_heater_relay_not_found:
  assumes "\<not> relay_found s" "\<forall>j < MAX_RELAY_NUMBER_TO_CHECK. \<not> matches (custom_name_read b) j"
  shows "find_water_heater_relay b s =
     (s, True,
      Log INFO (AttemptingToFind TARGET_CUSTOM_NAMES) #
        concat (map (probe (custom_name_read b)) [0..<MAX_RELAY_NUMBER_TO_CHECK]) @
        [Log INFO NotFoundYet])"
proof -
  have "\<forall>n \<in> set [0..<MAX_RELAY_NUMBER_TO_CHECK]. \<not> matches (custom_name_read b) n"
    using assms(2) by simp
  from find_loop_no_match [OF this, of s] show ?thesis
    using assms(1) by (simp add: find_water_heater_relay_def)
qed


lemma find_water_heater_relay_cases:
  "(\<exists>k. k < MAX_RELAY_NUMBER_TO_CHECK \<and> matches lab k \<and> (\<forall>j < k. \<not> matches lab j)) \<or>
   (\<forall>j < MAX_RELAY_NUMBER_TO_CHECK. \<not> matches lab j)"
proof (cases "\<exists>j. j < MAX_RELAY_NUMBER_TO_CHECK \<and> matches lab j")
  case True
  define k where "k = (LEAST j. j < MAX_RELAY_NUMBER_TO_CHECK \<and> matches lab j)"
  from True have k: "k < MAX_RELAY_NUMBER_TO_CHECK \<and> matches lab k"
    unfolding k_def by (rule LeastI_ex)
  have "\<not> matches lab j" if "j < k" for j
  proof
    assume "matches lab j"
    with that k have "j < MAX_RELAY_NUMBER_TO_CHECK \<and> matches lab j" by simp
    then have "k \<le> j" unfolding k_def by (rule Least_le)
    with that show False by simp
  qed
  with k show ?thesis by blast
next
  case False
  then show ?thesis by blast
qed

lemma find_water_heater_relay_quiet:
  assumes "\<not> relay_found s"
  shows "relay_writes (events (find_water_heater_relay b s)) = []"
    and "logged WARNING (events (find_water_heater_relay b s)) = []"
    and "recoveries (events (find_water_heater_relay b s)) = []"
    and "logged ERROR (events (find_water_heater_relay b s)) =
           map (\<lambda>n. ErrorGettingValue SETTINGS_SERVICE_NAME (RelayCustomName n))
             (filter (\<lambda>n. custom_name_read b n = GetValueFailed)
                (probed (events (find_water_heater_relay b s))))"
proof -
  from find_water_heater_relay_cases [of "custom_name_read b"]
  consider (found) k where "k < MAX_RELAY_NUMBER_TO_CHECK" "matches (custom_name_read b) k"
      "\<forall>j < k. \<not> matches (custom_name_read b) j"
    | (not_found) "\<forall>j < MAX_RELAY_NUMBER_TO_CHECK. \<not> matches (custom_name_read b) j"
    by blast
  then have "relay_writes (events (find_water_heater_relay b s)) = [] \<and>
    logged WARNING (events (find_water_heater_relay b s)) = [] \<and>
    recoveries (events (find_water_heater_relay b s)) = [] \<and>
    logged ERROR (events (find_water_heater_relay b s)) =
           map (\<lambda>n. ErrorGettingValue SETTINGS_SERVICE_NAME (RelayCustomName n))
             (filter (\<lambda>n. custom_name_read b n = GetValueFailed)
                (probed (events (find_water_heater_relay b s))))"
  proof cases
    case found
    show ?thesis
      by (simp only: find_water_heater_relay_found [OF assms found] events_def snd_conv)
        (simp add: relay_writes_append writes_concat_probe logged_append warning_concat_probe
          probed_append error_concat_probe probed_concat_probe recoveries_def
          info_concat_probe del: upt_Suc)
  next
    case not_found
    show ?thesis
      by (simp only: find_water_heater_relay_not_found [OF assms not_found] events_def snd_conv)
        (simp add: relay_writes_append writes_concat_probe logged_append warning_concat_probe
          probed_append error_concat_probe probed_concat_probe recoveries_def
          info_concat_probe)
  qed
  then show "relay_writes (events (find_water_heater_relay b s)) = []"
    and "logged WARNING (events (find_water_heater_relay b s)) = []"
    and "recoveries (events (find_water_heater_relay b s)) = []"
    and "logged ERROR (events (find_water_heater_relay b s)) =
           map (\<lambda>n. ErrorGettingValue SETTINGS_SERVICE_NAME (RelayCustomName n))
             (filter (\<lambda>n. custom_name_read b n = GetValueFailed)
                (probed (events (find_water_heater_relay b s))))"
    by blast+
qed

lemma upt_10: "[0..<10] = [0, 1, 2, 3, 4, 5, 6, 7, 8, Suc 8]"
  by (simp add: upt_conv_Cons)

text \<open>
  Claim C7 (as amended).  A scan that runs (the relay is not found yet) probes the slots
  in increasing order from 0.  If \<open>k\<close> is the lowest slot below
  \<open>MAX_RELAY_NUMBER_TO_CHECK\<close> whose label is read and is a target name, the scan
  probes exactly the slots 0 to \<open>k\<close>, records \<open>k\<close>, registers the initializer
  and returns \<open>False\<close>; slots after \<open>k\<close> are not probed, so a later slot with a
  target name is ignored.  If no slot matches, all slots are probed, the controller is
  unchanged and the scan returns \<open>True\<close>.  A failed label read is no match.  It is
  silent when \<open>get_object\<close> fails; when \<open>GetValue\<close> fails on the object
  obtained, one record is logged at error level for that slot: the error records of a
  scan are exactly those of the probed slots whose \<open>GetValue\<close> failed.
\<close>

theorem locator_scan:
  assumes "\<not> relay_found s"
  shows "(k < MAX_RELAY_NUMBER_TO_CHECK \<and> matches (custom_name_read b) k \<and>
            (\<forall>j < k. \<not> matches (custom_name_read b) j) \<longrightarrow>
            new_state (find_water_heater_relay b s) =
              s\<lparr>water_heater_relay_number := Some k, relay_found := True\<rparr> \<and>
            \<not> stays_armed (find_water_heater_relay b s) \<and>
            probed (events (find_water_heater_relay b s)) = [0..<Suc k] \<and>
            scheduled (events (find_water_heater_relay b s)) = [InitializeMonitoring] \<and>
            logged INFO (events (find_water_heater_relay b s)) =
              [AttemptingToFind TARGET_CUSTOM_NAMES, FoundRelay k]) \<and>
         ((\<forall>j < MAX_RELAY_NUMBER_TO_CHECK. \<not> matches (custom_name_read b) j) \<longrightarrow>
            new_state (find_water_heater_relay b s) = s \<and>
            stays_armed (find_water_heater_relay b s) \<and>
            probed (events (find_water_heater_relay b s)) = [0..<MAX_RELAY_NUMBER_TO_CHECK] \<and>
            scheduled (events (find_water_heater_relay b s)) = [] \<and>
            logged INFO (events (find_water_heater_relay b s)) =
              [AttemptingToFind TARGET_CUSTOM_NAMES, NotFoundYet]) \<and>
         relay_writes (events (find_water_heater_relay b s)) = [] \<and>
         logged WARNING (events (find_water_heater_relay b s)) = [] \<and>
         logged ERROR (events (find_water_heater_relay b s)) =
           map (\<lambda>n. ErrorGettingValue SETTINGS_SERVICE_NAME (RelayCustomName n))
             (filter (\<lambda>n. custom_name_read b n = GetValueFailed)
                (probed (events (find_water_heater_relay b s))))"
proof (intro conjI impI)
  assume k: "k < MAX_RELAY_NUMBER_TO_CHECK \<and> matches (custom_name_read b) k \<and>
            (\<forall>j < k. \<not> matches (custom_name_read b) j)"
  then have r: "find_water_heater_relay b s =
     (s\<lparr>water_heater_relay_number := Some k, relay_found := True\<rparr>, False,
      Log INFO (AttemptingToFind TARGET_CUSTOM_NAMES) #
        concat (map (probe (custom_name_read b)) [0..<Suc k]) @
        [Log INFO (FoundRelay k), TimeoutAdd 1 InitializeMonitoring])"
    using find_water_heater_relay_found [OF assms, of k b] by blast
  show "new_state (find_water_heater_relay b s) =
      s\<lparr>water_heater_relay_number := Some k, relay_found := True\<rparr>"
    by (simp only: r new_state_def fst_conv)
  show "\<not> stays_armed (find_water_heater_relay b s)"
    by (simp only: r stays_armed_def fst_conv snd_conv) simp
  show "probed (events (find_water_heater_relay b s)) = [0..<Suc k]"
    by (simp only: r events_def snd_conv) (simp add: probed_append probed_concat_probe probe_probed)
  show "scheduled (events (find_water_heater_relay b s)) = [InitializeMonitoring]"
    by (simp only: r events_def snd_conv) (simp add: scheduled_append scheduled_concat_probe probe_scheduled)
  show "logged INFO (events (find_water_heater_relay b s)) =
      [AttemptingToFind TARGET_CUSTOM_NAMES, FoundRelay k]"
    by (simp only: r events_def snd_conv) (simp add: logged_append info_concat_probe probe_info)
next
  assume n: "\<forall>j < MAX_RELAY_NUMBER_TO_CHECK. \<not> matches (custom_name_read b) j"
  note r = find_water_heater_relay_not_found [OF assms n]
  show "new_state (find_water_heater_relay b s) = s"
    by (simp only: r new_state_def fst_conv)
  show "stays_armed (find_water_heater_relay b s)"
    by (simp only: r stays_armed_def fst_conv snd_conv)
  show "probed (events (find_water_heater_relay b s)) = [0..<MAX_RELAY_NUMBER_TO_CHECK]"
    by (simp only: r events_def snd_conv) (simp add: probed_append probed_concat_probe probe_probed)
  show "scheduled (events (find_water_heater_relay b s)) = []"
    by (simp only: r events_def snd_conv) (simp add: scheduled_append scheduled_concat_probe probe_scheduled)
  show "logged INFO (events (find_water_heater_relay b s)) =
      [AttemptingToFind TARGET_CUSTOM_NAMES, NotFoundYet]"
    by (simp only: r events_def snd_conv) (simp add: logged_append info_concat_probe probe_info)
qed (rule find_water_heater_relay_quiet [OF assms])+

theorem locator_scan_witness:
  "\<not> relay_found init_controller \<and>
   matches scenario_labels 1 \<and> matches scenario_labels 5 \<and>
   water_heater_relay_number (new_state (find_water_heater_relay (answers NoObject WNoObject) init_controller)) = Some 1 \<and>
   \<not> stays_armed (find_water_heater_relay (answers NoObject WNoObject) init_controller) \<and>
   probed (events (find_water_heater_relay (answers NoObject WNoObject) init_controller)) = [0, 1] \<and>
   logged ERROR (events (find_water_heater_relay (answers NoObject WNoObject) init_controller)) = [] \<and>
   new_state (find_water_heater_relay no_relay_yet init_controller) = init_controller \<and>
   stays_armed (find_water_heater_relay no_relay_yet init_controller) \<and>
   probed (events (find_water_heater_relay no_relay_yet init_controller)) =
     [0, 1, 2, 3, 4, 5, 6, 7, 8, 9] \<and>
   relay_writes (events (find_water_heater_relay no_relay_yet init_controller)) = []"
proof -
  have a: "\<not> relay_found init_controller" by (simp add: init_controller_def)
  have m: "matches scenario_labels 1" "matches scenario_labels 5" "\<not> matches scenario_labels 0"
    by (simp_all add: matches_def scenario_labels_def TARGET_CUSTOM_NAMES_def)
  have f: "\<forall>j < MAX_RELAY_NUMBER_TO_CHECK. \<not> matches failing_labels j"
    by (simp add: matches_def failing_labels_def TARGET_CUSTOM_NAMES_def)
  have one: "\<forall>j < 1. \<not> matches scenario_labels j" using m(3) by simp
  show ?thesis
    using locator_scan [OF a, of 1 "answers NoObject WNoObject"]
      locator_scan [OF a, of 0 no_relay_yet] a m one f
    by (simp add: answers_def no_relay_yet_def MAX_RELAY_NUMBER_TO_CHECK_def upt_10
        scenario_labels_def)
qed

text \<open>
  The claim as first stated has every failed label read silent.  Here slot 3 is read
  with a failing \<open>GetValue\<close>, and the scan logs an error for it.
\<close>

theorem failed_label_read_is_logged:
  "\<not> relay_found init_controller \<and>
   custom_name_read no_relay_yet 3 = GetValueFailed \<and>
   logged ERROR (events (find_water_heater_relay no_relay_yet init_controller)) =
     [ErrorGettingValue SETTINGS_SERVICE_NAME (RelayCustomName 3)]"
  by (simp add: find_water_heater_relay_def init_controller_def no_relay_yet_def
      failing_labels_def MAX_RELAY_NUMBER_TO_CHECK_def upt_10 get_dbus_value_def
      events_def TARGET_CUSTOM_NAMES_def)

subsection \<open>Runs of the main loop\<close>

lemma last_value_snoc:
  "last_value (h @ [r]) = (case r of Some v \<Rightarrow> Some v | None \<Rightarrow> last_value h)"
  by (induction h) (auto split: option.splits)

lemma unavailable_snoc: "unavailable (h @ [r]) = (r = None)"
  by (simp add: unavailable_def)

lemma readings_append: "readings (xs @ ys) = readings xs @ readings ys"
  by (induction xs rule: readings.induct) auto

lemma read_of_Some: "read_of b = Some v \<longleftrightarrow> ac_source_read b = Got v"
  by (cases "ac_source_read b") (simp_all add: read_of_def)

lemma read_of_None:
  "read_of b = None \<longleftrightarrow> ac_source_read b = NoObject \<or> ac_source_read b = GetValueFailed"
  by (cases "ac_source_read b") (simp_all add: read_of_def)

lemma initialize_monitoring_recoveries:
  assumes "\<not> initial_state_set s" "water_heater_relay_number s = Some n"
  shows "recoveries (events (initialize_monitoring b s)) =
           (if read_of b \<noteq> None \<and> ac_source_unavailable_warning_logged s
            then [InitNowAvailable] else [])"
  using assms
  by (cases "ac_source_read b"; cases "relay_state_write b")
    (simp_all add: initialize_monitoring_def events_def recoveries_def read_of_def
      get_dbus_value_def set_relay_state_def Let_def)

lemma monitor_ac_input_source_recoveries:
  assumes "initial_state_set s" "water_heater_relay_number s = Some n"
  shows "recoveries (events (monitor_ac_input_source b s)) =
           (if read_of b \<noteq> None \<and> ac_source_unavailable_warning_logged s
            then [MonitorNowAvailable] else [])"
  using assms
  by (cases "ac_source_read b"; cases "relay_state_write b")
    (simp_all add: monitor_ac_input_source_def events_def recoveries_def read_of_def
      get_dbus_value_def set_relay_state_def Let_def)


lemma dispatch_registered:
  assumes "dispatch c b sys = Some (sys', ev)"
  shows "c \<in> set (snd sys)"
    and "ev = events (run_callback c b (fst sys))"
    and "fst sys' = new_state (run_callback c b (fst sys))"
    and "snd sys' = (if stays_armed (run_callback c b (fst sys)) then snd sys
                     else remove1 c (snd sys)) @ scheduled ev"
  using assms by (auto simp: dispatch_def Let_def split: if_splits)

lemma find_water_heater_relay_outcome:
  assumes "\<not> relay_found s"
  shows "(\<exists>k. new_state (find_water_heater_relay b s) =
              s\<lparr>water_heater_relay_number := Some k, relay_found := True\<rparr> \<and>
            \<not> stays_armed (find_water_heater_relay b s) \<and>
            scheduled (events (find_water_heater_relay b s)) = [InitializeMonitoring]) \<or>
         (new_state (find_water_heater_relay b s) = s \<and>
            stays_armed (find_water_heater_relay b s) \<and>
            scheduled (events (find_water_heater_relay b s)) = [])"
proof -
  from find_water_heater_relay_cases [of "custom_name_read b"]
  consider (found) k where "k < MAX_RELAY_NUMBER_TO_CHECK" "matches (custom_name_read b) k"
      "\<forall>j < k. \<not> matches (custom_name_read b) j"
    | (not_found) "\<forall>j < MAX_RELAY_NUMBER_TO_CHECK. \<not> matches (custom_name_read b) j"
    by blast
  then show ?thesis
  proof cases
    case found
    have "new_state (find_water_heater_relay b s) =
              s\<lparr>water_heater_relay_number := Some k, relay_found := True\<rparr> \<and>
            \<not> stays_armed (find_water_heater_relay b s) \<and>
            scheduled (events (find_water_heater_relay b s)) = [InitializeMonitoring]"
      by (simp only: find_water_heater_relay_found [OF assms found] events_def new_state_def
          stays_armed_def fst_conv snd_conv)
        (simp add: scheduled_append scheduled_concat_probe del: upt_Suc)
    then show ?thesis by blast
  next
    case not_found
    have "new_state (find_water_heater_relay b s) = s \<and>
            stays_armed (find_water_heater_relay b s) \<and>
            scheduled (events (find_water_heater_relay b s)) = []"
      by (simp only: find_water_heater_relay_not_found [OF assms not_found] events_def
          new_state_def stays_armed_def fst_conv snd_conv)
        (simp add: scheduled_append scheduled_concat_probe)
    then show ?thesis by blast
  qed
qed

lemma dispatch_find:
  assumes con: "consistent h sys" and ph: "snd sys = [FindWaterHeaterRelay]"
    and d: "dispatch c b sys = Some (sys', ev)"
  shows "c = FindWaterHeaterRelay"
    and "consistent (h @ readings [(c, b)]) sys'"
    and "relay_writes ev = []" and "logged WARNING ev = []" and "recoveries ev = []"
proof -
  note r = dispatch_registered [OF d]
  from r(1) ph show c: "c = FindWaterHeaterRelay" by simp
  from con ph have s: "h = []" "\<not> relay_found (fst sys)"
    "water_heater_relay_number (fst sys) = None" "\<not> initial_state_set (fst sys)"
    "\<not> ac_source_unavailable_warning_logged (fst sys)" "previous_ac_source (fst sys) = None"
    by (auto simp: consistent_def unavailable_def)
  from r(2) c have ev: "ev = events (find_water_heater_relay b (fst sys))" by simp
  from find_water_heater_relay_quiet [OF s(2), of b] ev
  show "relay_writes ev = []" and "logged WARNING ev = []" and "recoveries ev = []"
    by simp_all
  from find_water_heater_relay_outcome [OF s(2), of b]
  show "consistent (h @ readings [(c, b)]) sys'"
  proof (elim disjE exE conjE)
    fix k
    assume "new_state (find_water_heater_relay b (fst sys)) =
        (fst sys)\<lparr>water_heater_relay_number := Some k, relay_found := True\<rparr>"
      and "\<not> stays_armed (find_water_heater_relay b (fst sys))"
      and "scheduled (events (find_water_heater_relay b (fst sys))) = [InitializeMonitoring]"
    with r(3,4) c ph ev
    have "fst sys' = (fst sys)\<lparr>water_heater_relay_number := Some k, relay_found := True\<rparr>"
      and "snd sys' = [InitializeMonitoring]" by simp_all
    with s c show ?thesis by (simp add: consistent_def unavailable_def)
  next
    assume "new_state (find_water_heater_relay b (fst sys)) = fst sys"
      and "stays_armed (find_water_heater_relay b (fst sys))"
      and "scheduled (events (find_water_heater_relay b (fst sys))) = []"
    with r(3,4) c ph ev have "fst sys' = fst sys" and "snd sys' = [FindWaterHeaterRelay]"
      by simp_all
    with s c show ?thesis by (simp add: consistent_def unavailable_def)
  qed
qed

lemma dispatch_init:
  assumes con: "consistent h sys" and ph: "snd sys = [InitializeMonitoring]"
    and d: "dispatch c b sys = Some (sys', ev)"
  shows "c = InitializeMonitoring"
    and "consistent (h @ readings [(c, b)]) sys'"
    and "relay_writes ev = expected_relay_writes (water_heater_relay_number (fst sys)) h c b"
    and "logged WARNING ev = expected_warnings h c b"
    and "recoveries ev = expected_recoveries h c b"
    and "water_heater_relay_number (fst sys') = water_heater_relay_number (fst sys)"
proof -
  note r = dispatch_registered [OF d]
  from r(1) ph show c: "c = InitializeMonitoring" by simp
  from con ph obtain n where s: "relay_found (fst sys)"
    "water_heater_relay_number (fst sys) = Some n" "\<not> initial_state_set (fst sys)"
    "ac_source_unavailable_warning_logged (fst sys) = unavailable h"
    "previous_ac_source (fst sys) = last_value h" "last_value h = None"
    by (auto simp: consistent_def)
  from r(2) c have ev: "ev = events (initialize_monitoring b (fst sys))" by simp
  from r(3) c have st: "fst sys' = new_state (initialize_monitoring b (fst sys))" by simp
  from r(4) c ph have tm: "snd sys' =
      (if stays_armed (initialize_monitoring b (fst sys)) then [InitializeMonitoring] else []) @
      scheduled ev" by simp
  show "recoveries ev = expected_recoveries h c b"
    using initialize_monitoring_recoveries [OF s(3,2), of b] ev c s(4)
    by (simp add: expected_recoveries_def)
  have "consistent (h @ readings [(c, b)]) sys' \<and>
      relay_writes ev = expected_relay_writes (water_heater_relay_number (fst sys)) h c b \<and>
      logged WARNING ev = expected_warnings h c b \<and>
      water_heater_relay_number (fst sys') = water_heater_relay_number (fst sys)"
  proof (cases "read_of b")
    case None
    then have f: "ac_source_read b = NoObject \<or> ac_source_read b = GetValueFailed"
      by (simp add: read_of_None)
    note i = initialize_monitoring_failed [OF s(3,2) f]
    from i st tm ev s c None
    show ?thesis
      by (simp add: consistent_def expected_relay_writes_def expected_warnings_def
          last_value_snoc unavailable_snoc)
  next
    case (Some v)
    then have g: "ac_source_read b = Got v" by (simp add: read_of_Some)
    note i = initialize_monitoring_got [OF s(3,2) g]
    from i st tm ev s c Some
    show ?thesis
      by (simp add: consistent_def expected_relay_writes_def expected_warnings_def
          last_value_snoc unavailable_snoc)
  qed
  then show "consistent (h @ readings [(c, b)]) sys'"
    and "relay_writes ev = expected_relay_writes (water_heater_relay_number (fst sys)) h c b"
    and "logged WARNING ev = expected_warnings h c b"
    and "water_heater_relay_number (fst sys') = water_heater_relay_number (fst sys)"
    by simp_all
qed

lemma dispatch_monitor:
  assumes con: "consistent h sys" and ph: "snd sys = [MonitorAcInputSource]"
    and d: "dispatch c b sys = Some (sys', ev)"
  shows "c = MonitorAcInputSource"
    and "consistent (h @ readings [(c, b)]) sys'"
    and "relay_writes ev = expected_relay_writes (water_heater_relay_number (fst sys)) h c b"
    and "logged WARNING ev = expected_warnings h c b"
    and "recoveries ev = expected_recoveries h c b"
    and "water_heater_relay_number (fst sys') = water_heater_relay_number (fst sys)"
proof -
  note r = dispatch_registered [OF d]
  from r(1) ph show c: "c = MonitorAcInputSource" by simp
  from con ph obtain n where s: "relay_found (fst sys)"
    "water_heater_relay_number (fst sys) = Some n" "initial_state_set (fst sys)"
    "ac_source_unavailable_warning_logged (fst sys) = unavailable h"
    "previous_ac_source (fst sys) = last_value h" "last_value h \<noteq> None"
    by (auto simp: consistent_def)
  from r(2) c have ev: "ev = events (monitor_ac_input_source b (fst sys))" by simp
  from r(3) c have st: "fst sys' = new_state (monitor_ac_input_source b (fst sys))" by simp
  from r(4) c ph have tm: "snd sys' =
      (if stays_armed (monitor_ac_input_source b (fst sys)) then [MonitorAcInputSource] else []) @
      scheduled ev" by simp
  show "recoveries ev = expected_recoveries h c b"
    using monitor_ac_input_source_recoveries [OF s(3,2), of b] ev c s(4)
    by (simp add: expected_recoveries_def)
  have "consistent (h @ readings [(c, b)]) sys' \<and>
      relay_writes ev = expected_relay_writes (water_heater_relay_number (fst sys)) h c b \<and>
      logged WARNING ev = expected_warnings h c b \<and>
      water_heater_relay_number (fst sys') = water_heater_relay_number (fst sys)"
  proof (cases "read_of b")
    case None
    then have f: "ac_source_read b = NoObject \<or> ac_source_read b = GetValueFailed"
      by (simp add: read_of_None)
    note i = monitor_ac_input_source_failed [OF s(3,2) f]
    from i st tm ev s c None
    show ?thesis
      by (simp add: consistent_def expected_relay_writes_def expected_warnings_def
          last_value_snoc unavailable_snoc)
  next
    case (Some v)
    then have g: "ac_source_read b = Got v" by (simp add: read_of_Some)
    note i = monitor_ac_input_source_got [OF s(3,2) g]
    from i st tm ev s c Some
    show ?thesis
      by (simp add: consistent_def expected_relay_writes_def expected_warnings_def
          last_value_snoc unavailable_snoc)
  qed
  then show "consistent (h @ readings [(c, b)]) sys'"
    and "relay_writes ev = expected_relay_writes (water_heater_relay_number (fst sys)) h c b"
    and "logged WARNING ev = expected_warnings h c b"
    and "water_heater_relay_number (fst sys') = water_heater_relay_number (fst sys)"
    by simp_all
qed


lemma dispatch_step:
  assumes con: "consistent h sys" and d: "dispatch c b sys = Some (sys', ev)"
  shows "consistent (h @ readings [(c, b)]) sys'"
    and "relay_writes ev = expected_relay_writes (water_heater_relay_number (fst sys')) h c b"
    and "logged WARNING ev = expected_warnings h c b"
    and "recoveries ev = expected_recoveries h c b"
    and "water_heater_relay_number (fst sys) \<noteq> None \<longrightarrow>
           water_heater_relay_number (fst sys') = water_heater_relay_number (fst sys)"
    and "c \<noteq> FindWaterHeaterRelay \<longrightarrow> water_heater_relay_number (fst sys) \<noteq> None"
proof -
  from con consider (find) "snd sys = [FindWaterHeaterRelay]" "water_heater_relay_number (fst sys) = None"
    | (init) "snd sys = [InitializeMonitoring]" "water_heater_relay_number (fst sys) \<noteq> None"
    | (monitor) "snd sys = [MonitorAcInputSource]" "water_heater_relay_number (fst sys) \<noteq> None"
    by (auto simp: consistent_def)
  then have "consistent (h @ readings [(c, b)]) sys' \<and>
    relay_writes ev = expected_relay_writes (water_heater_relay_number (fst sys')) h c b \<and>
    logged WARNING ev = expected_warnings h c b \<and>
    recoveries ev = expected_recoveries h c b \<and>
    (water_heater_relay_number (fst sys) \<noteq> None \<longrightarrow>
           water_heater_relay_number (fst sys') = water_heater_relay_number (fst sys)) \<and>
    (c \<noteq> FindWaterHeaterRelay \<longrightarrow> water_heater_relay_number (fst sys) \<noteq> None)"
  proof cases
    case find
    from dispatch_find [OF con find(1) d] find(2) show ?thesis
      by (simp add: expected_relay_writes_def expected_warnings_def expected_recoveries_def)
  next
    case init
    from dispatch_init [OF con init(1) d] init(2) show ?thesis by simp
  next
    case monitor
    from dispatch_monitor [OF con monitor(1) d] monitor(2) show ?thesis by simp
  qed
  then show "consistent (h @ readings [(c, b)]) sys'"
    and "relay_writes ev = expected_relay_writes (water_heater_relay_number (fst sys')) h c b"
    and "logged WARNING ev = expected_warnings h c b"
    and "recoveries ev = expected_recoveries h c b"
    and "water_heater_relay_number (fst sys) \<noteq> None \<longrightarrow>
           water_heater_relay_number (fst sys') = water_heater_relay_number (fst sys)"
    and "c \<noteq> FindWaterHeaterRelay \<longrightarrow> water_heater_relay_number (fst sys) \<noteq> None"
    by simp_all
qed

lemma expected_relay_writes_find [simp]:
  "expected_relay_writes r h FindWaterHeaterRelay b = []"
  by (simp add: expected_relay_writes_def)

lemma run_Cons:
  "run ((c, b) # rest) sys = Some (sys', trs) \<Longrightarrow>
   \<exists>sys1 ev evs. dispatch c b sys = Some (sys1, ev) \<and> run rest sys1 = Some (sys', evs) \<and>
     trs = ev # evs"
  by (auto split: option.splits prod.splits)

lemma run_consistent:
  "consistent h sys \<Longrightarrow> run sched sys = Some (sys', trs) \<Longrightarrow>
   length trs = length sched \<and> consistent (h @ readings sched) sys' \<and>
   (water_heater_relay_number (fst sys) \<noteq> None \<longrightarrow>
      water_heater_relay_number (fst sys') = water_heater_relay_number (fst sys)) \<and>
   (\<forall>i < length sched. tick_as_expected h sched sys' trs i)"
proof (induction sched arbitrary: h sys trs)
  case Nil
  then show ?case by simp
next
  case (Cons cb rest)
  obtain c b where cb: "cb = (c, b)" by (cases cb)
  from Cons.prems(2) have "run ((c, b) # rest) sys = Some (sys', trs)" by (simp only: cb)
  from run_Cons [OF this] obtain sys1 ev evs where d: "dispatch c b sys = Some (sys1, ev)"
    and r: "run rest sys1 = Some (sys', evs)" and trs: "trs = ev # evs"
    by blast
  note st = dispatch_step [OF Cons.prems(1) d]
  note ih = Cons.IH [OF st(1) r]
  have app: "(h @ readings [(c, b)]) @ readings xs = h @ readings ((c, b) # xs)" for xs
    by simp
  have len: "length trs = length (cb # rest)" using ih trs by simp
  have con: "consistent (h @ readings (cb # rest)) sys'" using ih cb app [of rest] by simp
  have keep1: "water_heater_relay_number (fst sys1) \<noteq> None \<longrightarrow>
      water_heater_relay_number (fst sys') = water_heater_relay_number (fst sys1)"
    using ih by simp
  have keep: "water_heater_relay_number (fst sys) \<noteq> None \<longrightarrow>
      water_heater_relay_number (fst sys') = water_heater_relay_number (fst sys)"
    using keep1 st(5) by auto
  have ticks: "tick_as_expected h (cb # rest) sys' trs i" if i: "i < length (cb # rest)" for i
  proof (cases i)
    case 0
    have same: "expected_relay_writes (water_heater_relay_number (fst sys1)) h c b =
        expected_relay_writes (water_heater_relay_number (fst sys')) h c b"
    proof (cases "c = FindWaterHeaterRelay")
      case True
      then show ?thesis by simp
    next
      case False
      with st(5,6) keep1 show ?thesis by auto
    qed
    have "c \<noteq> FindWaterHeaterRelay \<longrightarrow> water_heater_relay_number (fst sys') \<noteq> None"
      using st(5,6) keep1 by auto
    with 0 st(2,3,4) same show ?thesis
      by (simp add: tick_as_expected_def cb trs)
  next
    case (Suc j)
    with i have "j < length rest" by simp
    with ih have "tick_as_expected (h @ readings [(c, b)]) rest sys' evs j" by simp
    then show ?thesis
      unfolding tick_as_expected_def Suc cb trs app by simp
  qed
  from len con keep ticks show ?case by blast
qed

lemma init_system_consistent: "consistent [] init_system"
  by (simp add: consistent_def init_system_def init_controller_def init_events_def
      unavailable_def)

subsection \<open>The scenario run\<close>

lemma find_scenario:
  "find_water_heater_relay (answers r w) init_controller =
     (located 1, False,
      [Log INFO (AttemptingToFind TARGET_CUSTOM_NAMES),
       Read SETTINGS_SERVICE_NAME (RelayCustomName 0),
       Read SETTINGS_SERVICE_NAME (RelayCustomName 1),
       Log INFO (FoundRelay 1), TimeoutAdd 1 InitializeMonitoring])"
  by (simp add: find_water_heater_relay_def init_controller_def answers_def located_def
      scenario_labels_def MAX_RELAY_NUMBER_TO_CHECK_def upt_10 get_dbus_value_def
      TARGET_CUSTOM_NAMES_def)

lemma find_no_relay_yet:
  "new_state (find_water_heater_relay no_relay_yet init_controller) = init_controller"
  "stays_armed (find_water_heater_relay no_relay_yet init_controller)"
  "scheduled (events (find_water_heater_relay no_relay_yet init_controller)) = []"
  by (simp_all add: find_water_heater_relay_def init_controller_def no_relay_yet_def
      failing_labels_def MAX_RELAY_NUMBER_TO_CHECK_def upt_10 get_dbus_value_def
      TARGET_CUSTOM_NAMES_def new_state_def stays_armed_def events_def)

lemma dispatch_eq:
  "c \<in> set t \<Longrightarrow> new_state (run_callback c b s) = s' \<Longrightarrow>
   (if stays_armed (run_callback c b s) then t else remove1 c t) @
     scheduled (events (run_callback c b s)) = t' \<Longrightarrow>
   \<exists>ev. dispatch c b (s, t) = Some ((s', t'), ev)"
  by (auto simp: dispatch_def Let_def)


lemma answers_simps [simp]:
  "ac_source_read (answers r w) = r" "relay_state_write (answers r w) = w"
  "custom_name_read (answers r w) = scenario_labels"
  by (simp_all add: answers_def)

lemma init_tick_failed:
  assumes "\<not> initial_state_set s" "water_heater_relay_number s = Some n"
    "ac_source_read b = NoObject \<or> ac_source_read b = GetValueFailed"
  shows "\<exists>ev. dispatch InitializeMonitoring b (s, [InitializeMonitoring]) =
           Some ((s\<lparr>ac_source_unavailable_warning_logged := True\<rparr>, [InitializeMonitoring]), ev)"
  using initialize_monitoring_failed [OF assms] by (intro dispatch_eq) simp_all

lemma init_tick_got:
  assumes "\<not> initial_state_set s" "water_heater_relay_number s = Some n" "ac_source_read b = Got v"
  shows "\<exists>ev. dispatch InitializeMonitoring b (s, [InitializeMonitoring]) =
           Some ((s\<lparr>ac_source_unavailable_warning_logged := False,
                     previous_ac_source := Some v, initial_state_set := True\<rparr>,
                  [MonitorAcInputSource]), ev)"
  using initialize_monitoring_got [OF assms] by (intro dispatch_eq) simp_all

lemma monitor_tick_failed:
  assumes "initial_state_set s" "water_heater_relay_number s = Some n"
    "ac_source_read b = NoObject \<or> ac_source_read b = GetValueFailed"
  shows "\<exists>ev. dispatch MonitorAcInputSource b (s, [MonitorAcInputSource]) =
           Some ((s\<lparr>ac_source_unavailable_warning_logged := True\<rparr>, [MonitorAcInputSource]), ev)"
  using monitor_ac_input_source_failed [OF assms] by (intro dispatch_eq) simp_all

lemma monitor_tick_got:
  assumes "initial_state_set s" "water_heater_relay_number s = Some n" "ac_source_read b = Got v"
  shows "\<exists>ev. dispatch MonitorAcInputSource b (s, [MonitorAcInputSource]) =
           Some ((s\<lparr>ac_source_unavailable_warning_logged := False,
                     previous_ac_source := Some v\<rparr>, [MonitorAcInputSource]), ev)"
  using monitor_ac_input_source_got [OF assms] by (intro dispatch_eq) simp_all

lemma scenario_runs:
  "\<exists>trs. run scenario init_system = Some ((monitoring 1 0, [MonitorAcInputSource]), trs)"
proof -
  have l: "\<not> initial_state_set (located 1)" "water_heater_relay_number (located 1) = Some 1"
    by (simp_all add: located_def init_controller_def)
  have m: "initial_state_set (monitoring 1 v)" "water_heater_relay_number (monitoring 1 v) = Some 1"
    for v by (simp_all add: monitoring_def located_def init_controller_def)
  have i: "init_system = (init_controller, [FindWaterHeaterRelay])"
    by (simp add: init_system_def init_events_def)
  obtain e1 where d1: "dispatch FindWaterHeaterRelay no_relay_yet (init_controller, [FindWaterHeaterRelay]) =
      Some ((init_controller, [FindWaterHeaterRelay]), e1)"
    using dispatch_eq [of FindWaterHeaterRelay "[FindWaterHeaterRelay]" no_relay_yet init_controller
        init_controller "[FindWaterHeaterRelay]"]
    by (auto simp: find_no_relay_yet)
  obtain e2 where d2: "dispatch FindWaterHeaterRelay (answers NoObject SetValueOk)
        (init_controller, [FindWaterHeaterRelay]) = Some ((located 1, [InitializeMonitoring]), e2)"
    using dispatch_eq [of FindWaterHeaterRelay "[FindWaterHeaterRelay]" "answers NoObject SetValueOk"
        init_controller "located 1" "[InitializeMonitoring]"]
    by (auto simp: find_scenario new_state_def stays_armed_def events_def)
  obtain e3 where d3: "dispatch InitializeMonitoring (answers NoObject SetValueOk)
        (located 1, [InitializeMonitoring]) =
      Some (((located 1)\<lparr>ac_source_unavailable_warning_logged := True\<rparr>, [InitializeMonitoring]), e3)"
    using init_tick_failed [OF l, of "answers NoObject SetValueOk"] by auto
  obtain e4 where d4: "dispatch InitializeMonitoring (answers (Got 1) SetValueOk)
        ((located 1)\<lparr>ac_source_unavailable_warning_logged := True\<rparr>, [InitializeMonitoring]) =
      Some ((monitoring 1 1, [MonitorAcInputSource]), e4)"
    using init_tick_got [of "(located 1)\<lparr>ac_source_unavailable_warning_logged := True\<rparr>" 1
        "answers (Got 1) SetValueOk" 1]
    by (auto simp: located_def monitoring_def init_controller_def)
  obtain e5 where d5: "dispatch MonitorAcInputSource (answers (Got 1) SetValueOk)
        (monitoring 1 1, [MonitorAcInputSource]) = Some ((monitoring 1 1, [MonitorAcInputSource]), e5)"
    using monitor_tick_got [OF m, of "answers (Got 1) SetValueOk" 1 1]
    by (auto simp: located_def monitoring_def init_controller_def)
  obtain e6 where d6: "dispatch MonitorAcInputSource (answers (Got 3) SetValueOk)
        (monitoring 1 1, [MonitorAcInputSource]) = Some ((monitoring 1 3, [MonitorAcInputSource]), e6)"
    using monitor_tick_got [OF m, of "answers (Got 3) SetValueOk" 3 1]
    by (auto simp: located_def monitoring_def init_controller_def)
  obtain e7 where d7: "dispatch MonitorAcInputSource (answers (Got 3) SetValueOk)
        (monitoring 1 3, [MonitorAcInputSource]) = Some ((monitoring 1 3, [MonitorAcInputSource]), e7)"
    using monitor_tick_got [OF m, of "answers (Got 3) SetValueOk" 3 3]
    by (auto simp: located_def monitoring_def init_controller_def)
  obtain e8 where d8: "dispatch MonitorAcInputSource (answers GetValueFailed SetValueOk)
        (monitoring 1 3, [MonitorAcInputSource]) =
      Some (((monitoring 1 3)\<lparr>ac_source_unavailable_warning_logged := True\<rparr>,
             [MonitorAcInputSource]), e8)"
    using monitor_tick_failed [OF m, of "answers GetValueFailed SetValueOk" 3] by auto
  obtain e9 where d9: "dispatch MonitorAcInputSource (answers NoObject SetValueOk)
        ((monitoring 1 3)\<lparr>ac_source_unavailable_warning_logged := True\<rparr>, [MonitorAcInputSource]) =
      Some (((monitoring 1 3)\<lparr>ac_source_unavailable_warning_logged := True\<rparr>,
             [MonitorAcInputSource]), e9)"
    using monitor_tick_failed [of "(monitoring 1 3)\<lparr>ac_source_unavailable_warning_logged := True\<rparr>" 1
        "answers NoObject SetValueOk"]
    by (auto simp: located_def monitoring_def init_controller_def)
  obtain e10 where d10: "dispatch MonitorAcInputSource (answers (Got 0) SetValueFailed)
        ((monitoring 1 3)\<lparr>ac_source_unavailable_warning_logged := True\<rparr>, [MonitorAcInputSource]) =
      Some ((monitoring 1 0, [MonitorAcInputSource]), e10)"
    using monitor_tick_got [of "(monitoring 1 3)\<lparr>ac_source_unavailable_warning_logged := True\<rparr>" 1
        "answers (Got 0) SetValueFailed" 0]
    by (auto simp: located_def monitoring_def init_controller_def)
  have "run scenario init_system =
      Some ((monitoring 1 0, [MonitorAcInputSource]), [e1, e2, e3, e4, e5, e6, e7, e8, e9, e10])"
    by (simp only: scenario_def i run.simps d1 d2 d3 d4 d5 d6 d7 d8 d9 d10 option.case prod.case)
  then show ?thesis by blast
qed


lemma run_as_expected:
  assumes "run sched init_system = Some (sys, trs)" and "i < length sched"
  shows "tick_as_expected [] sched sys trs i"
  using run_consistent [OF init_system_consistent assms(1)] assms(2) by blast

lemma readings_take_Suc:
  assumes "k < length sched" and "fst (sched ! k) \<noteq> FindWaterHeaterRelay"
  shows "readings (take (Suc k) sched) = readings (take k sched) @ [read_of (snd (sched ! k))]"
proof -
  obtain c b where cb: "sched ! k = (c, b)" by (cases "sched ! k")
  with assms(2) have "readings [sched ! k] = [read_of b]" by simp
  with assms(1) cb show ?thesis
    by (simp add: take_Suc_conv_app_nth readings_append)
qed

subsection \<open>Relay writes follow changes of the value read\<close>

text \<open>
  Claim C1.  Take any run of the main loop from start-up, and its tick \<open>i\<close>.  A locator
  tick issues no relay write.  A tick of the initializer or of the monitor issues none
  when its read fails; when it reads \<open>v\<close>, it issues no write if \<open>v\<close> is the value of
  the last successful read before it, and exactly one write otherwise, to the located
  relay, of 1 for the codes 1, 3 and 4 and of 0 for the others.  So the first value read
  is written once, a repeated value is not written again, and a changed value is written
  even when the command is the same as before (1 then 3).
\<close>

theorem relay_written_on_value_change:
  assumes "run sched init_system = Some (sys, trs)" and "i < length sched"
    and "sched ! i = (c, b)"
  shows "(c = FindWaterHeaterRelay \<longrightarrow> relay_writes (trs ! i) = []) \<and>
         (c \<noteq> FindWaterHeaterRelay \<longrightarrow>
            (\<exists>n. water_heater_relay_number (fst sys) = Some n \<and>
               relay_writes (trs ! i) =
                 (case read_of b of
                    None \<Rightarrow> []
                  | Some v \<Rightarrow>
                      if last_value (readings (take i sched)) = Some v then []
                      else [(n, if v \<in> {1, 3, 4} then 1 else 0)])))"
proof -
  from run_as_expected [OF assms(1,2)] assms(3)
  have w: "relay_writes (trs ! i) =
      expected_relay_writes (water_heater_relay_number (fst sys)) (readings (take i sched)) c b"
    and r: "c \<noteq> FindWaterHeaterRelay \<longrightarrow> water_heater_relay_number (fst sys) \<noteq> None"
    by (simp_all add: tick_as_expected_def)
  show ?thesis
  proof (cases "c = FindWaterHeaterRelay")
    case True
    with w show ?thesis by simp
  next
    case False
    with r obtain n where n: "water_heater_relay_number (fst sys) = Some n" by auto
    with w False show ?thesis
      by (cases "read_of b") (simp_all add: expected_relay_writes_def)
  qed
qed

theorem relay_written_on_value_change_witness:
  "\<exists>trs. run scenario init_system = Some ((monitoring 1 0, [MonitorAcInputSource]), trs) \<and>
     relay_writes (trs ! 1) = [] \<and> relay_writes (trs ! 2) = [] \<and>
     relay_writes (trs ! 3) = [(1, 1)] \<and> relay_writes (trs ! 4) = [] \<and>
     relay_writes (trs ! 5) = [(1, 1)] \<and> relay_writes (trs ! 6) = [] \<and>
     relay_writes (trs ! 7) = [] \<and> relay_writes (trs ! 8) = [] \<and>
     relay_writes (trs ! 9) = [(1, 0)]"
proof -
  from scenario_runs obtain trs
    where r: "run scenario init_system = Some ((monitoring 1 0, [MonitorAcInputSource]), trs)"
    by blast
  note t = relay_written_on_value_change [OF r]
  have n: "water_heater_relay_number (monitoring 1 0) = Some 1"
    by (simp add: monitoring_def located_def init_controller_def)
  have "relay_writes (trs ! 1) = []"
    using t [of 1 FindWaterHeaterRelay "answers NoObject SetValueOk"] by (simp add: scenario_def)
  moreover have "relay_writes (trs ! 2) = []"
    using t [of 2 InitializeMonitoring "answers NoObject SetValueOk"] n
    by (simp add: scenario_def read_of_def)
  moreover have "relay_writes (trs ! 3) = [(1, 1)]"
    using t [of 3 InitializeMonitoring "answers (Got 1) SetValueOk"] n
    by (simp add: scenario_def read_of_def no_relay_yet_def)
  moreover have "relay_writes (trs ! 4) = []"
    using t [of 4 MonitorAcInputSource "answers (Got 1) SetValueOk"] n
    by (simp add: scenario_def read_of_def no_relay_yet_def)
  moreover have "relay_writes (trs ! 5) = [(1, 1)]"
    using t [of 5 MonitorAcInputSource "answers (Got 3) SetValueOk"] n
    by (simp add: scenario_def read_of_def no_relay_yet_def)
  moreover have "relay_writes (trs ! 6) = []"
    using t [of 6 MonitorAcInputSource "answers (Got 3) SetValueOk"] n
    by (simp add: scenario_def read_of_def no_relay_yet_def)
  moreover have "relay_writes (trs ! 7) = []"
    using t [of 7 MonitorAcInputSource "answers GetValueFailed SetValueOk"] n
    by (simp add: scenario_def read_of_def no_relay_yet_def)
  moreover have "relay_writes (trs ! 8) = []"
    using t [of 8 MonitorAcInputSource "answers NoObject SetValueOk"] n
    by (simp add: scenario_def read_of_def no_relay_yet_def)
  moreover have "relay_writes (trs ! 9) = [(1, 0)]"
    using t [of 9 MonitorAcInputSource "answers (Got 0) SetValueFailed"] n
    by (simp add: scenario_def read_of_def no_relay_yet_def)
  ultimately show ?thesis using r by blast
qed


subsection \<open>Unavailability episodes\<close>

text \<open>
  Over the ticks of an episode and the readable tick that ends it, one warning and one
  recovery note are logged.
\<close>

lemma episode_log_counts:
  assumes run: "run sched init_system = Some (sys, trs)"
    and ij: "i < j" and j: "j < length sched"
    and failed: "\<forall>k. i \<le> k \<and> k < j \<longrightarrow>
           fst (sched ! k) \<noteq> FindWaterHeaterRelay \<and> read_of (snd (sched ! k)) = None"
    and readable: "fst (sched ! j) \<noteq> FindWaterHeaterRelay \<and> read_of (snd (sched ! j)) \<noteq> None"
    and start: "\<not> unavailable (readings (take i sched))"
  shows "(\<Sum>k = i..j. length (logged WARNING (trs ! k))) = 1 \<and>
         (\<Sum>k = i..j. length (recoveries (trs ! k))) = 1 \<and>
         logged WARNING (trs ! i) =
           [if fst (sched ! i) = InitializeMonitoring then InitNotAvailable
            else MonitorCouldNotRead] \<and>
         recoveries (trs ! j) =
           [if fst (sched ! j) = InitializeMonitoring then InitNowAvailable
            else MonitorNowAvailable]"
proof -
  have tick: "logged WARNING (trs ! k) =
        expected_warnings (readings (take k sched)) (fst (sched ! k)) (snd (sched ! k)) \<and>
      recoveries (trs ! k) =
        expected_recoveries (readings (take k sched)) (fst (sched ! k)) (snd (sched ! k))"
    if "k \<le> j" for k
  proof -
    from that j have "k < length sched" by simp
    from run_as_expected [OF run this] show ?thesis by (simp add: tick_as_expected_def)
  qed
  have open_episode: "unavailable (readings (take k sched))" if "i < k" "k \<le> j" for k
  proof -
    from that obtain m where m: "k = Suc m" "i \<le> m" "m < j" by (cases k) auto
    with failed have f: "fst (sched ! m) \<noteq> FindWaterHeaterRelay" "read_of (snd (sched ! m)) = None"
      by auto
    from m j have "m < length sched" by simp
    from readings_take_Suc [OF this f(1)] f(2) m(1) show ?thesis
      by (simp add: unavailable_snoc)
  qed
  from failed ij have fi: "fst (sched ! i) \<noteq> FindWaterHeaterRelay" "read_of (snd (sched ! i)) = None"
    by auto
  have wi: "logged WARNING (trs ! i) =
      [if fst (sched ! i) = InitializeMonitoring then InitNotAvailable else MonitorCouldNotRead]"
    using tick [of i] ij fi start by (simp add: expected_warnings_def)
  have wk: "logged WARNING (trs ! k) = []" if "Suc i \<le> k" "k \<le> j" for k
    using tick [OF that(2)] open_episode [of k] that by (simp add: expected_warnings_def)
  have rj: "recoveries (trs ! j) =
      [if fst (sched ! j) = InitializeMonitoring then InitNowAvailable else MonitorNowAvailable]"
    using tick [of j] open_episode [of j] ij readable by (simp add: expected_recoveries_def)
  have rk: "recoveries (trs ! k) = []" if "i \<le> k" "k < j" for k
    using tick [of k] failed that by (simp add: expected_recoveries_def)
  have "(\<Sum>k = i..j. length (logged WARNING (trs ! k))) =
      length (logged WARNING (trs ! i)) + (\<Sum>k = Suc i..j. length (logged WARNING (trs ! k)))"
    using ij by (simp add: sum.atLeast_Suc_atMost)
  also have "(\<Sum>k = Suc i..j. length (logged WARNING (trs ! k))) = 0"
    using wk by simp
  finally have w: "(\<Sum>k = i..j. length (logged WARNING (trs ! k))) = 1" using wi by simp
  obtain j' where j': "j = Suc j'" "i \<le> j'" using ij by (cases j) auto
  have "(\<Sum>k = i..j. length (recoveries (trs ! k))) =
      (\<Sum>k = i..j'. length (recoveries (trs ! k))) + length (recoveries (trs ! j))"
    using j' by simp
  also have "(\<Sum>k = i..j'. length (recoveries (trs ! k))) = 0"
    using rk j' by simp
  finally have r: "(\<Sum>k = i..j. length (recoveries (trs ! k))) = 1" using rj by simp
  from w r wi rj show ?thesis by blast
qed

text \<open>
  Claim C4.  Take any run of the main loop from start-up and any tick \<open>k\<close> of it.  A
  record is logged at warning level on tick \<open>k\<close> exactly when the tick is one of the
  initializer or the monitor, its read fails, and the reading before it, if there is
  one, succeeded: on the first tick of an unavailability episode and on no other tick.
  A recovery note is logged on tick \<open>k\<close> exactly when the tick is one of the
  initializer or the monitor, its read succeeds, and the reading before it failed: on the
  tick that ends an episode and on no other tick, so not on a first read that succeeds
  nor on a read that follows a successful one.  In each case it is one record.  Hence
  over an episode of the ticks \<open>i\<close> to \<open>k - 1\<close> ended by tick \<open>k\<close>, exactly one
  warning and exactly one recovery note are logged, however many ticks the episode has.
  (The error records of \<open>_get_dbus_value\<close> are at another level and are not counted
  here.)
\<close>

theorem one_warning_and_one_recovery_per_episode:
  assumes run: "run sched init_system = Some (sys, trs)" and k: "k < length sched"
  shows "logged WARNING (trs ! k) =
           (if fst (sched ! k) \<noteq> FindWaterHeaterRelay \<and> read_of (snd (sched ! k)) = None \<and>
               \<not> unavailable (readings (take k sched))
            then [if fst (sched ! k) = InitializeMonitoring then InitNotAvailable
                  else MonitorCouldNotRead]
            else []) \<and>
         recoveries (trs ! k) =
           (if fst (sched ! k) \<noteq> FindWaterHeaterRelay \<and> read_of (snd (sched ! k)) \<noteq> None \<and>
               unavailable (readings (take k sched))
            then [if fst (sched ! k) = InitializeMonitoring then InitNowAvailable
                  else MonitorNowAvailable]
            else []) \<and>
         (\<forall>i. i < k \<and>
              (\<forall>m. i \<le> m \<and> m < k \<longrightarrow>
                 fst (sched ! m) \<noteq> FindWaterHeaterRelay \<and> read_of (snd (sched ! m)) = None) \<and>
              fst (sched ! k) \<noteq> FindWaterHeaterRelay \<and> read_of (snd (sched ! k)) \<noteq> None \<and>
              \<not> unavailable (readings (take i sched)) \<longrightarrow>
              (\<Sum>m = i..k. length (logged WARNING (trs ! m))) = 1 \<and>
              (\<Sum>m = i..k. length (recoveries (trs ! m))) = 1)"
proof (intro conjI allI impI)
  from run_as_expected [OF run k]
  have w: "logged WARNING (trs ! k) =
      expected_warnings (readings (take k sched)) (fst (sched ! k)) (snd (sched ! k))"
    and r: "recoveries (trs ! k) =
      expected_recoveries (readings (take k sched)) (fst (sched ! k)) (snd (sched ! k))"
    by (simp_all add: tick_as_expected_def)
  show "logged WARNING (trs ! k) =
           (if fst (sched ! k) \<noteq> FindWaterHeaterRelay \<and> read_of (snd (sched ! k)) = None \<and>
               \<not> unavailable (readings (take k sched))
            then [if fst (sched ! k) = InitializeMonitoring then InitNotAvailable
                  else MonitorCouldNotRead]
            else [])"
    by (simp only: w expected_warnings_def)
  show "recoveries (trs ! k) =
           (if fst (sched ! k) \<noteq> FindWaterHeaterRelay \<and> read_of (snd (sched ! k)) \<noteq> None \<and>
               unavailable (readings (take k sched))
            then [if fst (sched ! k) = InitializeMonitoring then InitNowAvailable
                  else MonitorNowAvailable]
            else [])"
    by (simp only: r expected_recoveries_def)
next
  fix i
  assume e: "i < k \<and>
      (\<forall>m. i \<le> m \<and> m < k \<longrightarrow>
         fst (sched ! m) \<noteq> FindWaterHeaterRelay \<and> read_of (snd (sched ! m)) = None) \<and>
      fst (sched ! k) \<noteq> FindWaterHeaterRelay \<and> read_of (snd (sched ! k)) \<noteq> None \<and>
      \<not> unavailable (readings (take i sched))"
  then have ik: "i < k"
    and failed: "\<forall>m. i \<le> m \<and> m < k \<longrightarrow>
         fst (sched ! m) \<noteq> FindWaterHeaterRelay \<and> read_of (snd (sched ! m)) = None"
    and readable: "fst (sched ! k) \<noteq> FindWaterHeaterRelay \<and> read_of (snd (sched ! k)) \<noteq> None"
    and start: "\<not> unavailable (readings (take i sched))"
    by blast+
  from episode_log_counts [OF run ik k failed readable start]
  show "(\<Sum>m = i..k. length (logged WARNING (trs ! m))) = 1"
    and "(\<Sum>m = i..k. length (recoveries (trs ! m))) = 1"
    by blast+
qed

theorem one_warning_and_one_recovery_per_episode_witness:
  "\<exists>trs. run scenario init_system = Some ((monitoring 1 0, [MonitorAcInputSource]), trs) \<and>
     logged WARNING (trs ! 2) = [InitNotAvailable] \<and> recoveries (trs ! 2) = [] \<and>
     logged WARNING (trs ! 3) = [] \<and> recoveries (trs ! 3) = [InitNowAvailable] \<and>
     logged WARNING (trs ! 4) = [] \<and> recoveries (trs ! 4) = [] \<and>
     logged WARNING (trs ! 5) = [] \<and> recoveries (trs ! 5) = [] \<and>
     logged WARNING (trs ! 7) = [MonitorCouldNotRead] \<and> recoveries (trs ! 7) = [] \<and>
     logged WARNING (trs ! 8) = [] \<and> recoveries (trs ! 8) = [] \<and>
     logged WARNING (trs ! 9) = [] \<and> recoveries (trs ! 9) = [MonitorNowAvailable] \<and>
     (\<Sum>m = 7..9. length (logged WARNING (trs ! m))) = 1 \<and>
     (\<Sum>m = 7..9. length (recoveries (trs ! m))) = 1"
proof -
  from scenario_runs obtain trs
    where r: "run scenario init_system = Some ((monitoring 1 0, [MonitorAcInputSource]), trs)"
    by blast
  note t = one_warning_and_one_recovery_per_episode [OF r]
  have t2: "logged WARNING (trs ! 2) = [InitNotAvailable] \<and> recoveries (trs ! 2) = []"
    using t [of 2] by (simp add: scenario_def read_of_def unavailable_def)
  have t3: "logged WARNING (trs ! 3) = [] \<and> recoveries (trs ! 3) = [InitNowAvailable]"
    using t [of 3] by (simp add: scenario_def read_of_def unavailable_def)
  have t4: "logged WARNING (trs ! 4) = [] \<and> recoveries (trs ! 4) = []"
    using t [of 4] by (simp add: scenario_def read_of_def unavailable_def)
  have t5: "logged WARNING (trs ! 5) = [] \<and> recoveries (trs ! 5) = []"
    using t [of 5] by (simp add: scenario_def read_of_def unavailable_def)
  have t7: "logged WARNING (trs ! 7) = [MonitorCouldNotRead] \<and> recoveries (trs ! 7) = []"
    using t [of 7] by (simp add: scenario_def read_of_def unavailable_def)
  have t8: "logged WARNING (trs ! 8) = [] \<and> recoveries (trs ! 8) = []"
    using t [of 8] by (simp add: scenario_def read_of_def unavailable_def)
  have t9: "logged WARNING (trs ! 9) = [] \<and> recoveries (trs ! 9) = [MonitorNowAvailable]"
    using t [of 9] by (simp add: scenario_def read_of_def unavailable_def)
  have mon: "\<forall>m. 7 \<le> m \<and> m < 9 \<longrightarrow>
      fst (scenario ! m) \<noteq> FindWaterHeaterRelay \<and> read_of (snd (scenario ! m)) = None"
  proof (intro allI impI)
    fix m :: nat assume "7 \<le> m \<and> m < 9"
    then have "m = 7 \<or> m = 8" by arith
    then show "fst (scenario ! m) \<noteq> FindWaterHeaterRelay \<and> read_of (snd (scenario ! m)) = None"
      by (auto simp: scenario_def read_of_def)
  qed
  have len: "9 < length scenario" by (simp add: scenario_def)
  have ends: "fst (scenario ! 9) \<noteq> FindWaterHeaterRelay \<and> read_of (snd (scenario ! 9)) \<noteq> None"
    "\<not> unavailable (readings (take 7 scenario))"
    by (simp_all add: scenario_def read_of_def unavailable_def)
  from t [OF len]
  have "7 < (9::nat) \<and>
      (\<forall>m. 7 \<le> m \<and> m < 9 \<longrightarrow>
         fst (scenario ! m) \<noteq> FindWaterHeaterRelay \<and> read_of (snd (scenario ! m)) = None) \<and>
      fst (scenario ! 9) \<noteq> FindWaterHeaterRelay \<and> read_of (snd (scenario ! 9)) \<noteq> None \<and>
      \<not> unavailable (readings (take 7 scenario)) \<longrightarrow>
      (\<Sum>m = 7..9. length (logged WARNING (trs ! m))) = 1 \<and>
      (\<Sum>m = 7..9. length (recoveries (trs ! m))) = 1"
    by blast
  with mon ends
  have sums: "(\<Sum>m = 7..9. length (logged WARNING (trs ! m))) = 1 \<and>
      (\<Sum>m = 7..9. length (recoveries (trs ! m))) = 1"
    by simp
  from r t2 t3 t4 t5 t7 t8 t9 sums show ?thesis by blast
qed

subsection \<open>The initial state is set only on a located relay\<close>

lemma run_exec: "run sched sys = Some (sys', trs) \<Longrightarrow> fst sys' = exec sched (fst sys)"
proof (induction sched arbitrary: sys trs)
  case Nil
  then show ?case by simp
next
  case (Cons cb rest)
  obtain c b where cb: "cb = (c, b)" by (cases cb)
  from Cons.prems have "run ((c, b) # rest) sys = Some (sys', trs)" by (simp only: cb)
  from run_Cons [OF this] obtain sys1 ev evs where d: "dispatch c b sys = Some (sys1, ev)"
    and r: "run rest sys1 = Some (sys', evs)" by blast
  from dispatch_registered(3) [OF d] Cons.IH [OF r] cb show ?case by simp
qed

lemma callback_keeps_relay:
  assumes "initial_state_set s \<longrightarrow> water_heater_relay_number s \<noteq> None"
  shows "initial_state_set (new_state (run_callback c b s)) \<longrightarrow>
         water_heater_relay_number (new_state (run_callback c b s)) \<noteq> None"
proof (cases c)
  case FindWaterHeaterRelay
  show ?thesis
  proof (cases "relay_found s")
    case True
    with assms FindWaterHeaterRelay show ?thesis
      by (simp add: find_water_heater_relay_def new_state_def)
  next
    case False
    from find_water_heater_relay_outcome [OF False, of b] assms FindWaterHeaterRelay
    show ?thesis by auto
  qed
next
  case InitializeMonitoring
  show ?thesis
  proof (cases "initial_state_set s \<or> water_heater_relay_number s = None")
    case True
    with assms InitializeMonitoring show ?thesis
      by (simp add: initialize_monitoring_def new_state_def)
  next
    case False
    then obtain n where n: "\<not> initial_state_set s" "water_heater_relay_number s = Some n" by auto
    show ?thesis
    proof (cases "read_of b")
      case None
      then have "ac_source_read b = NoObject \<or> ac_source_read b = GetValueFailed"
        by (simp add: read_of_None)
      from initialize_monitoring_failed(1) [OF n this] n InitializeMonitoring show ?thesis by simp
    next
      case (Some v)
      then have "ac_source_read b = Got v" by (simp add: read_of_Some)
      from initialize_monitoring_got(1) [OF n this] n InitializeMonitoring show ?thesis by simp
    qed
  qed
next
  case MonitorAcInputSource
  show ?thesis
  proof (cases "\<not> initial_state_set s \<or> water_heater_relay_number s = None")
    case True
    with assms MonitorAcInputSource show ?thesis
      by (simp add: monitor_ac_input_source_def new_state_def)
  next
    case False
    then obtain n where n: "initial_state_set s" "water_heater_relay_number s = Some n" by auto
    show ?thesis
    proof (cases "read_of b")
      case None
      then have "ac_source_read b = NoObject \<or> ac_source_read b = GetValueFailed"
        by (simp add: read_of_None)
      from monitor_ac_input_source_failed(1) [OF n this] n MonitorAcInputSource show ?thesis by simp
    next
      case (Some v)
      then have "ac_source_read b = Got v" by (simp add: read_of_Some)
      from monitor_ac_input_source_got(1) [OF n this] n MonitorAcInputSource show ?thesis by simp
    qed
  qed
qed

lemma exec_keeps_relay:
  "initial_state_set s \<longrightarrow> water_heater_relay_number s \<noteq> None \<Longrightarrow>
   initial_state_set (exec sched s) \<longrightarrow> water_heater_relay_number (exec sched s) \<noteq> None"
proof (induction sched arbitrary: s)
  case Nil
  then show ?case by simp
next
  case (Cons cb rest)
  obtain c b where cb: "cb = (c, b)" by (cases cb)
  from Cons.IH [OF callback_keeps_relay [OF Cons.prems, of c b]] cb show ?case by simp
qed

text \<open>
  Claim C9.  After any sequence of ticks of the three callbacks from the controller that
  \<open>__init__\<close> builds, in any order and whether registered or not, if the initial state
  is set then a relay is located.  The controller of every run of the main loop from
  start-up is reached by such a sequence, so the same holds there.
\<close>

theorem initial_state_set_implies_relay_located:
  "(initial_state_set (exec sched init_controller) \<longrightarrow>
      water_heater_relay_number (exec sched init_controller) \<noteq> None) \<and>
   (run sched init_system = Some (sys, trs) \<longrightarrow>
      fst sys = exec sched init_controller \<and>
      (initial_state_set (fst sys) \<longrightarrow> water_heater_relay_number (fst sys) \<noteq> None))"
proof -
  have a: "initial_state_set (exec sched init_controller) \<longrightarrow>
      water_heater_relay_number (exec sched init_controller) \<noteq> None"
    by (rule exec_keeps_relay) (simp add: init_controller_def)
  have "fst sys = exec sched init_controller" if "run sched init_system = Some (sys, trs)"
    using run_exec [OF that] by (simp add: init_system_def)
  with a show ?thesis by auto
qed

theorem initial_state_set_implies_relay_located_witness:
  "\<exists>trs. run scenario init_system = Some ((monitoring 1 0, [MonitorAcInputSource]), trs) \<and>
     exec scenario init_controller = monitoring 1 0 \<and>
     initial_state_set (exec scenario init_controller) \<and>
     water_heater_relay_number (exec scenario init_controller) \<noteq> None"
proof -
  from scenario_runs obtain trs
    where r: "run scenario init_system = Some ((monitoring 1 0, [MonitorAcInputSource]), trs)"
    by blast
  have "initial_state_set (monitoring 1 0)"
    by (simp add: monitoring_def)
  with initial_state_set_implies_relay_located
    [of scenario "(monitoring 1 0, [MonitorAcInputSource])" trs] r
  show ?thesis by (intro exI [of _ trs]) auto
qed

subsection \<open>The initializer\<close>

text \<open>
  Claim C2 (as amended).  An initializer tick that passes its guard and cannot read the
  AC source stays armed, writes no relay, registers no timer and leaves the previous
  source value and the initial-state flag as they were.  On its first tick that reads a
  value it issues one relay write and then, whether that write went through or not,
  records the previous source value, marks the initial state as set, registers the
  monitor and returns \<open>False\<close>.  In every run of the main loop from start-up the
  previous source value is defined exactly when the initial state is set, which is
  exactly when some tick has read the AC source successfully; from then on the monitor
  alone is registered, and before that, once a relay is located, the initializer alone.
\<close>

theorem initializer_completes_on_first_read:
  "(\<not> initial_state_set s \<and> water_heater_relay_number s = Some n \<and>
      (ac_source_read b = NoObject \<or> ac_source_read b = GetValueFailed) \<longrightarrow>
        stays_armed (initialize_monitoring b s) \<and>
        relay_writes (events (initialize_monitoring b s)) = [] \<and>
        scheduled (events (initialize_monitoring b s)) = [] \<and>
        previous_ac_source (new_state (initialize_monitoring b s)) = previous_ac_source s \<and>
        \<not> initial_state_set (new_state (initialize_monitoring b s))) \<and>
   (\<not> initial_state_set s \<and> water_heater_relay_number s = Some n \<and> ac_source_read b = Got v \<longrightarrow>
        relay_writes (events (initialize_monitoring b s)) = [(n, if v \<in> {1, 3, 4} then 1 else 0)] \<and>
        fst (set_relay_state (water_heater_relay_number s) (if v \<in> {1, 3, 4} then 1 else 0)
               (relay_state_write b)) = (relay_state_write b = SetValueOk) \<and>
        previous_ac_source (new_state (initialize_monitoring b s)) = Some v \<and>
        initial_state_set (new_state (initialize_monitoring b s)) \<and>
        scheduled (events (initialize_monitoring b s)) = [MonitorAcInputSource] \<and>
        \<not> stays_armed (initialize_monitoring b s)) \<and>
   (run sched init_system = Some (sys, trs) \<longrightarrow>
        (previous_ac_source (fst sys) \<noteq> None \<longleftrightarrow> initial_state_set (fst sys)) \<and>
        (initial_state_set (fst sys) \<longleftrightarrow> last_value (readings sched) \<noteq> None) \<and>
        (initial_state_set (fst sys) \<longrightarrow> snd sys = [MonitorAcInputSource]) \<and>
        (\<not> initial_state_set (fst sys) \<and> water_heater_relay_number (fst sys) \<noteq> None \<longrightarrow>
           snd sys = [InitializeMonitoring]))"
proof (intro conjI impI)
  assume a: "\<not> initial_state_set s \<and> water_heater_relay_number s = Some n \<and>
      (ac_source_read b = NoObject \<or> ac_source_read b = GetValueFailed)"
  then have h: "\<not> initial_state_set s" "water_heater_relay_number s = Some n"
    "ac_source_read b = NoObject \<or> ac_source_read b = GetValueFailed" by simp_all
  note i = initialize_monitoring_failed [OF h]
  show "stays_armed (initialize_monitoring b s)" by (rule i(2))
  show "relay_writes (events (initialize_monitoring b s)) = []" by (rule i(3))
  show "scheduled (events (initialize_monitoring b s)) = []" by (rule i(4))
  show "previous_ac_source (new_state (initialize_monitoring b s)) = previous_ac_source s"
    using i(1) by simp
  show "\<not> initial_state_set (new_state (initialize_monitoring b s))"
    using i(1) h(1) by simp
next
  assume a: "\<not> initial_state_set s \<and> water_heater_relay_number s = Some n \<and>
      ac_source_read b = Got v"
  then have h: "\<not> initial_state_set s" "water_heater_relay_number s = Some n"
    "ac_source_read b = Got v" by simp_all
  note i = initialize_monitoring_got [OF h]
  show "relay_writes (events (initialize_monitoring b s)) = [(n, if v \<in> {1, 3, 4} then 1 else 0)]"
    by (rule i(3))
  show "fst (set_relay_state (water_heater_relay_number s) (if v \<in> {1, 3, 4} then 1 else 0)
               (relay_state_write b)) = (relay_state_write b = SetValueOk)"
    using h(2) by (simp add: set_relay_state_result)
  show "previous_ac_source (new_state (initialize_monitoring b s)) = Some v"
    using i(1) by simp
  show "initial_state_set (new_state (initialize_monitoring b s))"
    using i(1) by simp
  show "scheduled (events (initialize_monitoring b s)) = [MonitorAcInputSource]" by (rule i(4))
  show "\<not> stays_armed (initialize_monitoring b s)" by (rule i(2))
next
  assume r: "run sched init_system = Some (sys, trs)"
  from run_consistent [OF init_system_consistent r]
  have c: "consistent (readings sched) sys" by simp
  from c show "(previous_ac_source (fst sys) \<noteq> None) = initial_state_set (fst sys)"
    by (auto simp: consistent_def)
  from c show "initial_state_set (fst sys) = (last_value (readings sched) \<noteq> None)"
    by (auto simp: consistent_def)
  from c show "snd sys = [MonitorAcInputSource]" if "initial_state_set (fst sys)"
    using that by (auto simp: consistent_def)
  from c show "snd sys = [InitializeMonitoring]"
    if "\<not> initial_state_set (fst sys) \<and> water_heater_relay_number (fst sys) \<noteq> None"
    using that by (auto simp: consistent_def)
qed

theorem initializer_completes_on_first_read_witness:
  "\<exists>trs. run scenario init_system = Some ((monitoring 1 0, [MonitorAcInputSource]), trs) \<and>
     previous_ac_source (monitoring 1 0) \<noteq> None \<and>
     last_value (readings scenario) = Some 0 \<and>
     stays_armed (initialize_monitoring (answers GetValueFailed SetValueOk) (located 1)) \<and>
     relay_writes (events (initialize_monitoring (answers GetValueFailed SetValueOk) (located 1))) = [] \<and>
     relay_writes (events (initialize_monitoring (answers (Got 4) WNoObject) (located 1))) = [(1, 1)] \<and>
     \<not> fst (set_relay_state (Some 1) 1 WNoObject) \<and>
     initial_state_set (new_state (initialize_monitoring (answers (Got 4) WNoObject) (located 1))) \<and>
     \<not> stays_armed (initialize_monitoring (answers (Got 4) WNoObject) (located 1))"
proof -
  from scenario_runs obtain trs
    where r: "run scenario init_system = Some ((monitoring 1 0, [MonitorAcInputSource]), trs)"
    by blast
  have l: "\<not> initial_state_set (located 1)" "water_heater_relay_number (located 1) = Some 1"
    by (simp_all add: located_def init_controller_def)
  have m: "initial_state_set (monitoring 1 0)" by (simp add: monitoring_def)
  from initializer_completes_on_first_read
    [of "located 1" 1 "answers GetValueFailed SetValueOk" 0 scenario
      "(monitoring 1 0, [MonitorAcInputSource])" trs]
    initializer_completes_on_first_read
    [of "located 1" 1 "answers (Got 4) WNoObject" 4 scenario
      "(monitoring 1 0, [MonitorAcInputSource])" trs]
    r l m
  show ?thesis
    by (intro exI [of _ trs])
      (simp add: scenario_def read_of_def monitoring_def located_def init_controller_def)
qed

text \<open>
  The claim as first stated has the initializer retry until a relay write succeeds.  Here
  \<open>SetValue\<close> fails: \<open>_set_relay_state\<close> returns \<open>False\<close> and logs the error, and
  the initializer completes all the same.
\<close>

theorem initializer_completes_without_successful_write:
  "\<not> initial_state_set (located 1) \<and>
   water_heater_relay_number (located 1) = Some 1 \<and>
   \<not> fst (set_relay_state (water_heater_relay_number (located 1)) 1 SetValueFailed) \<and>
   relay_writes (events (initialize_monitoring (answers (Got 1) SetValueFailed) (located 1))) = [(1, 1)] \<and>
   logged ERROR (events (initialize_monitoring (answers (Got 1) SetValueFailed) (located 1))) =
     [ErrorSettingValue SYSTEM_SERVICE (RelayState 1)] \<and>
   initial_state_set (new_state (initialize_monitoring (answers (Got 1) SetValueFailed) (located 1))) \<and>
   previous_ac_source (new_state (initialize_monitoring (answers (Got 1) SetValueFailed) (located 1))) =
     Some 1 \<and>
   scheduled (events (initialize_monitoring (answers (Got 1) SetValueFailed) (located 1))) =
     [MonitorAcInputSource] \<and>
   \<not> stays_armed (initialize_monitoring (answers (Got 1) SetValueFailed) (located 1))"
  by (simp add: initialize_monitoring_def located_def init_controller_def answers_def
      get_dbus_value_def set_relay_state_def interpret_ac_source_def new_state_def events_def
      stays_armed_def Let_def)

end
